theory Spec2Isabelle
  imports Complex_Main "HOL-Library.AList" "HOL-Library.Sublist"
begin

section \<open>Time, durations and text\<close>

text \<open>
  A \<open>time.Time\<close> is an instant counted in nanoseconds; \<open>t.Sub(u)\<close> is a
  \<open>time.Duration\<close>, a signed 64-bit count of nanoseconds that saturates at its
  bounds. \<open>Duration.Hours()\<close> is a \<open>float64\<close>; here every \<open>float64\<close> of the
  program is an exact real number, so rounding is outside the model.
\<close>

type_synonym time = int

definition maxDuration :: int where
  "maxDuration = 9223372036854775807"

definition minDuration :: int where
  "minDuration = - 9223372036854775808"

definition sub :: "time \<Rightarrow> time \<Rightarrow> int" where
  "sub t u =
     (let d = t - u
      in if d < minDuration then minDuration
         else if maxDuration < d then maxDuration
         else d)"

definition hours :: "int \<Rightarrow> real" where
  "hours d = real_of_int d / 3600000000000"

text \<open>
  A Go string is a sequence of bytes, here a list of 8-bit characters.
  \<open>strings.Split(s, "\n")\<close> gives the pieces between the separators, one more piece
  than there are separators.
\<close>

fun splitLines :: "string \<Rightarrow> string list" where
  "splitLines [] = [] # []"
| "splitLines (c # cs) =
     (if c = CHR 0x0A then [] # splitLines cs
      else (c # hd (splitLines cs)) # tl (splitLines cs))"

text \<open>
  \<open>strings.TrimSpace(line) == ""\<close>. \<open>TrimSpace\<close> strips the runes for which
  \<open>unicode.IsSpace\<close> holds from both ends of the string, decoding it as UTF-8; a byte
  that does not begin a well-formed encoding decodes to the replacement rune, which
  is not white space. The result is empty exactly when the string is, from its first
  byte to its last, a run of encodings of white space: the six ASCII characters tab,
  line feed, vertical tab, form feed, carriage return and space, and the encodings
  of U+0085 and U+00A0 (C2 85, C2 A0), U+1680 (E1 9A 80), U+2000 to U+200A, U+2028,
  U+2029 and U+202F (E2 80 80 to E2 80 8A, E2 80 A8, E2 80 A9, E2 80 AF), U+205F
  (E2 81 9F) and U+3000 (E3 80 80).
\<close>

definition asciiSpace :: "char \<Rightarrow> bool" where
  "asciiSpace c = (c = CHR 0x09 \<or> c = CHR 0x0A \<or> c = CHR 0x0B \<or> c = CHR 0x0C
                   \<or> c = CHR 0x0D \<or> c = CHR 0x20)"

definition spaceE2 :: "char \<Rightarrow> char \<Rightarrow> bool" where
  "spaceE2 d e =
     ((d = CHR 0x80
         \<and> (e = CHR 0x80 \<or> e = CHR 0x81 \<or> e = CHR 0x82 \<or> e = CHR 0x83 \<or> e = CHR 0x84
            \<or> e = CHR 0x85 \<or> e = CHR 0x86 \<or> e = CHR 0x87 \<or> e = CHR 0x88 \<or> e = CHR 0x89
            \<or> e = CHR 0x8A \<or> e = CHR 0xA8 \<or> e = CHR 0xA9 \<or> e = CHR 0xAF))
      \<or> (d = CHR 0x81 \<and> e = CHR 0x9F))"

fun blank :: "string \<Rightarrow> bool" where
  "blank [] = True"
| "blank (c # cs) =
     (if asciiSpace c then blank cs
      else if c = CHR 0xC2
      then (case cs of
              d # ds \<Rightarrow> (d = CHR 0x85 \<or> d = CHR 0xA0) \<and> blank ds
            | [] \<Rightarrow> False)
      else if c = CHR 0xE1
      then (case cs of
              d # e # es \<Rightarrow> d = CHR 0x9A \<and> e = CHR 0x80 \<and> blank es
            | _ \<Rightarrow> False)
      else if c = CHR 0xE2
      then (case cs of
              d # e # es \<Rightarrow> spaceE2 d e \<and> blank es
            | _ \<Rightarrow> False)
      else if c = CHR 0xE3
      then (case cs of
              d # e # es \<Rightarrow> d = CHR 0x80 \<and> e = CHR 0x80 \<and> blank es
            | _ \<Rightarrow> False)
      else False)"

section \<open>What the repository library hands over\<close>

text \<open>
  The programs read commits through go-git. A commit carries its hash, its author
  time, its tree (the files with their contents, each of which may fail to be read)
  and the patch the program asks for, \<open>commit.Patch(parent)\<close>; \<open>None\<close> stands for a
  read that returned an error. go-git computes that patch from the tree of the commit
  to the tree of the parent: in a file patch \<open>fp_from\<close> is the file of the commit and
  \<open>fp_to\<close> the file of the parent, a \<open>Delete\<close> chunk holds text that the commit has
  and its parent has not, an \<open>Add\<close> chunk text that the parent has and the commit has
  not, and an \<open>Equal\<close> chunk text of both.
\<close>

datatype Operation = Equal | Add | Delete

record FilePatch =
  fp_from :: "string option"
  fp_to :: "string option"
  fp_chunks :: "(Operation \<times> string) list"

record Commit =
  c_hash :: string
  c_when :: time
  c_tree :: "(string \<times> string option) list option"
  c_numParents :: nat
  c_patch :: "FilePatch list option"

text \<open>
  A file patch fits two trees when its chunks rebuild both files: the text of the
  chunks that are not added is the file of the commit, the text of the chunks that
  are not deleted is the file of the parent.
\<close>

definition fromText :: "(Operation \<times> string) list \<Rightarrow> string" where
  "fromText chunks = concat (map snd (filter (\<lambda>chunk. fst chunk \<noteq> Add) chunks))"

definition toText :: "(Operation \<times> string) list \<Rightarrow> string" where
  "toText chunks = concat (map snd (filter (\<lambda>chunk. fst chunk \<noteq> Delete) chunks))"

definition patchFits ::
  "(string \<times> string option) list \<Rightarrow> (string \<times> string option) list \<Rightarrow> FilePatch \<Rightarrow> bool" where
  "patchFits tree parentTree filePatch =
     ((case fp_from filePatch of
         None \<Rightarrow> fromText (fp_chunks filePatch) = []
       | Some name \<Rightarrow> map_of tree name = Some (Some (fromText (fp_chunks filePatch))))
      \<and> (case fp_to filePatch of
            None \<Rightarrow> toText (fp_chunks filePatch) = []
          | Some name \<Rightarrow> map_of parentTree name = Some (Some (toText (fp_chunks filePatch)))))"

definition commitFits :: "Commit \<Rightarrow> Commit \<Rightarrow> bool" where
  "commitFits commit parent =
     (case (c_tree commit, c_tree parent, c_patch commit) of
        (Some tree, Some parentTree, Some patches) \<Rightarrow> list_all (patchFits tree parentTree) patches
      | _ \<Rightarrow> False)"

section \<open>The tracker with change events\<close>

text \<open>
  The first program (\<open>main.go\<close>). A line history carries its change events; the
  commits are taken in the order the log iterator yields them. The map
  \<open>lineHistories\<close> is an association list with one entry per key, changed only
  through \<open>AList.update\<close>; \<open>changeFrequency\<close> is the map from a name to a count, a
  name never counted reading 0. The counters are natural numbers.
\<close>

datatype ChangeType = Created | Modified | Deleted

record ChangeEvent =
  ce_Timestamp :: time
  ce_Type :: ChangeType
  ce_NewValue :: string
  ce_Distance :: int

record LineHistory =
  lh_File :: string
  lh_Line :: string
  lh_Changes :: "ChangeEvent list"
  lh_FirstSeen :: time
  lh_LastSeen :: time
  lh_DeletedAt :: "time option"

record Stats =
  st_MedianLifetime :: real
  st_MeanLifetime :: real
  st_StdDevLifetime :: real
  st_HalfLife :: real
  st_TotalLinesTracked :: nat
  st_LinesWithChanges :: nat
  st_OldestCode :: real
  st_NewestCode :: real
  st_SurvivalRate :: "int \<rightharpoonup> real"
  st_ChangeFrequency :: "string \<Rightarrow> nat"
  st_AverageEditSize :: real

definition zeroStats :: Stats where
  "zeroStats =
     \<lparr>st_MedianLifetime = 0, st_MeanLifetime = 0, st_StdDevLifetime = 0, st_HalfLife = 0,
      st_TotalLinesTracked = 0, st_LinesWithChanges = 0, st_OldestCode = 0, st_NewestCode = 0,
      st_SurvivalRate = Map.empty, st_ChangeFrequency = (\<lambda>name. 0), st_AverageEditSize = 0\<rparr>"

subsection \<open>calculateStats and calculateSurvivalRate\<close>

definition collectLifetime :: "time \<Rightarrow> real list \<Rightarrow> LineHistory \<Rightarrow> real list" where
  "collectLifetime now lifetimes history =
     (let endTime = (case lh_DeletedAt history of None \<Rightarrow> now | Some deletedAt \<Rightarrow> deletedAt);
          lifetime = hours (sub endTime (lh_FirstSeen history)) / 24
      in if 0 \<le> lifetime then lifetimes @ [lifetime] else lifetimes)"

definition calculateStats :: "time \<Rightarrow> (string \<times> LineHistory) list \<Rightarrow> Stats" where
  "calculateStats now histories =
     (let collected = foldl (collectLifetime now) [] (map snd histories)
      in if length collected = 0 then zeroStats
         else
           let lifetimes = sort collected;
               n = length lifetimes;
               sum = foldl (\<lambda>sum lifetime. sum + lifetime) 0 lifetimes;
               mean = sum / real n;
               sumSquares =
                 foldl (\<lambda>sumSquares lifetime. sumSquares + (lifetime - mean) * (lifetime - mean))
                   0 lifetimes;
               stdDev = sqrt (sumSquares / real n);
               median =
                 (if n mod 2 = 0
                  then (lifetimes ! (n div 2 - 1) + lifetimes ! (n div 2)) / 2
                  else lifetimes ! (n div 2))
           in \<lparr>st_MedianLifetime = median,
               st_MeanLifetime = mean,
               st_StdDevLifetime = stdDev,
               st_HalfLife = median * ln 2,
               st_TotalLinesTracked = length histories,
               st_LinesWithChanges = n,
               st_OldestCode = lifetimes ! (n - 1),
               st_NewestCode = lifetimes ! 0,
               st_SurvivalRate = Map.empty,
               st_ChangeFrequency = (\<lambda>name. 0),
               st_AverageEditSize = 0\<rparr>)"

definition aliveAt :: "time \<Rightarrow> real \<Rightarrow> LineHistory \<Rightarrow> bool" where
  "aliveAt now t history =
     (t \<le> hours (sub now (lh_FirstSeen history)) / 24
      \<and> (case lh_DeletedAt history of
            None \<Rightarrow> True
          | Some deletedAt \<Rightarrow> t < hours (sub deletedAt (lh_FirstSeen history)) / 24))"

definition calculateSurvivalRate :: "time \<Rightarrow> (string \<times> LineHistory) list \<Rightarrow> (int \<rightharpoonup> real)" where
  "calculateSurvivalRate now histories =
     foldl
       (\<lambda>survival t.
          survival(\<lfloor>t\<rfloor> \<mapsto>
            real (length (filter (aliveAt now t) (map snd histories))) / real (length histories)))
       Map.empty
       (sort (foldl (collectLifetime now) [] (map snd histories)))"

subsection \<open>analyzeRepository\<close>

record Analysis =
  lineHistories :: "(string \<times> LineHistory) list"
  changeFrequency :: "string \<Rightarrow> nat"
  totalEditSize :: nat
  totalEdits :: nat
  totalLines :: nat

definition emptyAnalysis :: Analysis where
  "emptyAnalysis =
     \<lparr>lineHistories = [], changeFrequency = (\<lambda>name. 0), totalEditSize = 0, totalEdits = 0,
      totalLines = 0\<rparr>"

text \<open>
  \<open>strings.HasSuffix(name, strings.TrimPrefix(filePattern, "*"))\<close>, and the count of
  the lines of the matching files of a tree whose contents can be read.
\<close>

definition trimPrefixStar :: "string \<Rightarrow> string" where
  "trimPrefixStar filePattern = (if prefix ''*'' filePattern then drop 1 filePattern else filePattern)"

definition hasPatternSuffix :: "string \<Rightarrow> string \<Rightarrow> bool" where
  "hasPatternSuffix name filePattern = suffix (trimPrefixStar filePattern) name"

definition countLines :: "string \<Rightarrow> (string \<times> string option) list \<Rightarrow> nat" where
  "countLines filePattern files =
     foldl
       (\<lambda>n f. if hasPatternSuffix (fst f) filePattern
              then (case snd f of None \<Rightarrow> n | Some contents \<Rightarrow> n + length (splitLines contents))
              else n)
       0 files"

text \<open>
  The key of a line: path, line number and text. The line number is set to 1 at the
  head of each chunk and never changed, so it is 1 in every key.
\<close>

definition historyKey :: "string \<Rightarrow> string \<Rightarrow> string" where
  "historyKey path line = path @ '':'' @ ''1'' @ '':'' @ line"

definition newEvent :: "Commit \<Rightarrow> ChangeType \<Rightarrow> string \<Rightarrow> ChangeEvent" where
  "newEvent commit type newValue =
     \<lparr>ce_Timestamp = c_when commit, ce_Type = type, ce_NewValue = newValue, ce_Distance = 0\<rparr>"

definition addedLine :: "Commit \<Rightarrow> string \<Rightarrow> Analysis \<Rightarrow> string \<Rightarrow> Analysis" where
  "addedLine commit path a line =
     (if blank line then a
      else
        (case map_of (lineHistories a) (historyKey path line) of
           None \<Rightarrow>
             a\<lparr>lineHistories :=
                 AList.update (historyKey path line)
                   \<lparr>lh_File = path, lh_Line = line,
                    lh_Changes = [newEvent commit Created line],
                    lh_FirstSeen = c_when commit, lh_LastSeen = c_when commit,
                    lh_DeletedAt = None\<rparr>
                   (lineHistories a)\<rparr>
         | Some history \<Rightarrow> a))"

definition deletedLine :: "Commit \<Rightarrow> string \<Rightarrow> Analysis \<Rightarrow> string \<Rightarrow> Analysis" where
  "deletedLine commit path a line =
     (if blank line then a
      else
        (case map_of (lineHistories a) (historyKey path line) of
           None \<Rightarrow> a
         | Some history \<Rightarrow>
             a\<lparr>lineHistories :=
                 AList.update (historyKey path line)
                   (history\<lparr>lh_DeletedAt := Some (c_when commit),
                            lh_Changes := lh_Changes history @ [newEvent commit Deleted []]\<rparr>)
                   (lineHistories a)\<rparr>))"

definition equalLine :: "Commit \<Rightarrow> string \<Rightarrow> Analysis \<Rightarrow> string \<Rightarrow> Analysis" where
  "equalLine commit path a line =
     (if blank line then a
      else
        (case map_of (lineHistories a) (historyKey path line) of
           None \<Rightarrow> a
         | Some history \<Rightarrow>
             let seen = history\<lparr>lh_LastSeen := c_when commit\<rparr>
             in a\<lparr>lineHistories :=
                    AList.update (historyKey path line)
                      (if lh_DeletedAt seen = None
                       then seen\<lparr>lh_Changes := lh_Changes seen @ [newEvent commit Modified line]\<rparr>
                       else seen)
                      (lineHistories a)\<rparr>))"

definition analyzeChunk :: "Commit \<Rightarrow> string \<Rightarrow> Analysis \<Rightarrow> Operation \<times> string \<Rightarrow> Analysis" where
  "analyzeChunk commit path a chunk =
     (let a1 =
        (case fst chunk of
           Add \<Rightarrow> foldl (addedLine commit path) a (splitLines (snd chunk))
         | Delete \<Rightarrow> foldl (deletedLine commit path) a (splitLines (snd chunk))
         | Equal \<Rightarrow> foldl (equalLine commit path) a (splitLines (snd chunk)))
      in if fst chunk \<noteq> Equal
         then a1\<lparr>totalEditSize := totalEditSize a1 + length (snd chunk),
                 totalEdits := totalEdits a1 + 1\<rparr>
         else a1)"

definition analyzeFilePatch :: "string \<Rightarrow> Commit \<Rightarrow> Analysis \<Rightarrow> FilePatch \<Rightarrow> Analysis" where
  "analyzeFilePatch filePattern commit a filePatch =
     (case fp_to filePatch of
        None \<Rightarrow> a
      | Some path \<Rightarrow>
          if \<not> hasPatternSuffix path filePattern then a
          else foldl (analyzeChunk commit path) a (fp_chunks filePatch))"

definition tallyChange :: "(string \<Rightarrow> nat) \<Rightarrow> ChangeEvent \<Rightarrow> (string \<Rightarrow> nat)" where
  "tallyChange frequency change =
     (case ce_Type change of
        Created \<Rightarrow> frequency(''Created'' := frequency ''Created'' + 1)
      | Modified \<Rightarrow> frequency(''Modified'' := frequency ''Modified'' + 1)
      | Deleted \<Rightarrow> frequency(''Deleted'' := frequency ''Deleted'' + 1))"

definition tallyChanges :: "Analysis \<Rightarrow> Analysis" where
  "tallyChanges a =
     a\<lparr>changeFrequency :=
         foldl (\<lambda>frequency history. foldl tallyChange frequency (lh_Changes history))
           (changeFrequency a) (map snd (lineHistories a))\<rparr>"

text \<open>
  One commit of the iteration. A tree that cannot be read, and for a commit with a
  parent a parent or patch that cannot be read (\<open>c_patch\<close> is \<open>None\<close>), end the
  step at once, before the change frequency is updated.
\<close>

definition analyzeCommit :: "string \<Rightarrow> Analysis \<Rightarrow> Commit \<Rightarrow> Analysis" where
  "analyzeCommit filePattern a commit =
     (case c_tree commit of
        None \<Rightarrow> a
      | Some files \<Rightarrow>
          let a1 = a\<lparr>totalLines := totalLines a + countLines filePattern files\<rparr>
          in if 0 < c_numParents commit
             then (case c_patch commit of
                     None \<Rightarrow> a1
                   | Some patches \<Rightarrow>
                       tallyChanges (foldl (analyzeFilePatch filePattern commit) a1 patches))
             else tallyChanges a1)"

text \<open>
  The whole analysis, from the commit at HEAD (\<open>None\<close> when it cannot be read) and
  the commits of the log. \<open>calculateStats\<close> and \<open>calculateSurvivalRate\<close> each read
  the clock, so the present time is given twice. The errors of opening the repository
  and of reading HEAD come before any of this and are not part of it.
\<close>

definition currentLines :: "string \<Rightarrow> Commit option \<Rightarrow> nat" where
  "currentLines filePattern headCommit =
     (case headCommit of
        None \<Rightarrow> 0
      | Some commit \<Rightarrow>
          (case c_tree commit of None \<Rightarrow> 0 | Some files \<Rightarrow> countLines filePattern files))"

definition analyzeRepository ::
  "time \<Rightarrow> time \<Rightarrow> Commit option \<Rightarrow> Commit list \<Rightarrow> string
     \<Rightarrow> Stats \<times> (string \<times> LineHistory) list" where
  "analyzeRepository now now' headCommit commits filePattern =
     (let a = foldl (analyzeCommit filePattern) emptyAnalysis commits;
          stats = (calculateStats now (lineHistories a))
                    \<lparr>st_TotalLinesTracked := currentLines filePattern headCommit,
                     st_SurvivalRate := calculateSurvivalRate now' (lineHistories a),
                     st_ChangeFrequency := changeFrequency a\<rparr>
      in (if 0 < totalEdits a
          then stats\<lparr>st_AverageEditSize := real (totalEditSize a) / real (totalEdits a)\<rparr>
          else stats,
          lineHistories a))"

section \<open>The tracker with a validation mode\<close>

text \<open>
  The second program of the repository (its \<open>analyzeRepository\<close> takes a
  \<open>validateMode\<close> flag). Its names carry a 2 where they clash with the first program.
\<close>

record CodeLine =
  cl_Content :: string
  cl_File :: string
  cl_CreatedAt :: time
  cl_DeletedAt :: "time option"
  cl_CommitHash :: string
  cl_LastSeen :: time

record TimelineEvent =
  te_Time :: time
  te_CommitHash :: string
  te_Action :: string
  te_File :: string
  te_Line :: string
  te_LinesSoFar :: nat
  te_DeletedSoFar :: nat

record Stats2 =
  vs_HalfLife :: real
  vs_TotalLines :: nat
  vs_MedianAge :: real
  vs_SurvivalRate :: "real list"
  vs_OldestLine :: string
  vs_OldestLineAge :: real
  vs_NewestLine :: string
  vs_NewestLineAge :: real
  vs_DeletedLines :: nat
  vs_SurvivingLines :: nat
  vs_FirstCommit :: time
  vs_LastCommit :: time

text \<open>
  \<open>matchesPattern\<close>. \<open>fpMatch pattern filename\<close> stands for
  \<open>filepath.Match(pattern, filepath.Base(filename))\<close>, \<open>None\<close> for its error.
\<close>

definition matchesPattern :: "(string \<Rightarrow> string \<Rightarrow> bool option) \<Rightarrow> string \<Rightarrow> string \<Rightarrow> bool" where
  "matchesPattern fpMatch filename pattern =
     (if pattern = ''*'' then True
      else if prefix ''*.'' pattern then suffix (tl pattern) filename
      else (case fpMatch pattern filename of None \<Rightarrow> False | Some matched \<Rightarrow> matched))"

text \<open>
  The map \<open>codeLines\<close> is an association list with one entry per key, changed only
  through \<open>AList.update\<close>; the timeline is the slice of events in the order appended.
\<close>

record Tracker =
  codeLines :: "(string \<times> CodeLine) list"
  timeline :: "TimelineEvent list"

definition countDeletedLines :: "(string \<times> CodeLine) list \<Rightarrow> nat" where
  "countDeletedLines lines = length (filter (\<lambda>(k, line). cl_DeletedAt line \<noteq> None) lines)"

definition lineKey :: "string \<Rightarrow> string \<Rightarrow> string" where
  "lineKey path line = path @ '':'' @ line"

definition newCodeLine :: "Commit \<Rightarrow> string \<Rightarrow> string \<Rightarrow> CodeLine" where
  "newCodeLine commit path line =
     \<lparr>cl_Content = line, cl_File = path, cl_CreatedAt = c_when commit, cl_DeletedAt = None,
      cl_CommitHash = c_hash commit, cl_LastSeen = c_when commit\<rparr>"

definition createEvent :: "Commit \<Rightarrow> string \<Rightarrow> string \<Rightarrow> nat \<Rightarrow> TimelineEvent" where
  "createEvent commit path line n =
     \<lparr>te_Time = c_when commit, te_CommitHash = c_hash commit, te_Action = ''create'',
      te_File = path, te_Line = line, te_LinesSoFar = n, te_DeletedSoFar = 0\<rparr>"

definition deleteEvent :: "Commit \<Rightarrow> string \<Rightarrow> string \<Rightarrow> nat \<Rightarrow> nat \<Rightarrow> TimelineEvent" where
  "deleteEvent commit path line n d =
     \<lparr>te_Time = c_when commit, te_CommitHash = c_hash commit, te_Action = ''delete'',
      te_File = path, te_Line = line, te_LinesSoFar = n, te_DeletedSoFar = d\<rparr>"

text \<open>The first commit: every line of the snapshot is stored, whatever the map holds.\<close>

definition snapshotLine :: "bool \<Rightarrow> Commit \<Rightarrow> string \<Rightarrow> Tracker \<Rightarrow> string \<Rightarrow> Tracker" where
  "snapshotLine validateMode commit name s line =
     (if blank line then s
      else
        let lines' = AList.update (lineKey name line) (newCodeLine commit name line) (codeLines s)
        in if validateMode
           then \<lparr>codeLines = lines',
                 timeline = timeline s @ [createEvent commit name line (length lines')]\<rparr>
           else s\<lparr>codeLines := lines'\<rparr>)"

definition snapshotFile ::
  "(string \<Rightarrow> string \<Rightarrow> bool option) \<Rightarrow> string \<Rightarrow> bool \<Rightarrow> Commit \<Rightarrow> Tracker
     \<Rightarrow> string \<times> string option \<Rightarrow> Tracker" where
  "snapshotFile fpMatch filePattern validateMode commit s f =
     (if \<not> matchesPattern fpMatch (fst f) filePattern then s
      else (case snd f of
              None \<Rightarrow> s
            | Some content \<Rightarrow>
                foldl (snapshotLine validateMode commit (fst f)) s (splitLines content)))"

definition firstCommit ::
  "(string \<Rightarrow> string \<Rightarrow> bool option) \<Rightarrow> string \<Rightarrow> bool \<Rightarrow> Tracker \<Rightarrow> Commit \<Rightarrow> Tracker" where
  "firstCommit fpMatch filePattern validateMode s commit =
     (case c_tree commit of
        None \<Rightarrow> s
      | Some files \<Rightarrow> foldl (snapshotFile fpMatch filePattern validateMode commit) s files)"

text \<open>Every later commit: the chunks of its patch, file by file.\<close>

definition addLine :: "bool \<Rightarrow> Commit \<Rightarrow> string \<Rightarrow> Tracker \<Rightarrow> string \<Rightarrow> Tracker" where
  "addLine validateMode commit path s line =
     (if blank line then s
      else
        (case map_of (codeLines s) (lineKey path line) of
           None \<Rightarrow>
             let lines' = AList.update (lineKey path line) (newCodeLine commit path line) (codeLines s)
             in if validateMode
                then \<lparr>codeLines = lines',
                      timeline = timeline s @ [createEvent commit path line (length lines')]\<rparr>
                else s\<lparr>codeLines := lines'\<rparr>
         | Some cl \<Rightarrow>
             s\<lparr>codeLines :=
                 AList.update (lineKey path line) (cl\<lparr>cl_LastSeen := c_when commit\<rparr>) (codeLines s)\<rparr>))"

definition deleteLine :: "bool \<Rightarrow> Commit \<Rightarrow> string \<Rightarrow> Tracker \<Rightarrow> string \<Rightarrow> Tracker" where
  "deleteLine validateMode commit path s line =
     (if blank line then s
      else
        (case map_of (codeLines s) (lineKey path line) of
           None \<Rightarrow> s
         | Some cl \<Rightarrow>
             let lines' = AList.update (lineKey path line)
                            (cl\<lparr>cl_DeletedAt := Some (c_when commit)\<rparr>) (codeLines s)
             in if validateMode
                then \<lparr>codeLines = lines',
                      timeline = timeline s @
                        [deleteEvent commit path line (length lines') (countDeletedLines lines')]\<rparr>
                else s\<lparr>codeLines := lines'\<rparr>))"

definition processChunk :: "bool \<Rightarrow> Commit \<Rightarrow> string \<Rightarrow> Tracker \<Rightarrow> Operation \<times> string \<Rightarrow> Tracker" where
  "processChunk validateMode commit path s chunk =
     (case fst chunk of
        Add \<Rightarrow> foldl (addLine validateMode commit path) s (splitLines (snd chunk))
      | Delete \<Rightarrow> foldl (deleteLine validateMode commit path) s (splitLines (snd chunk))
      | Equal \<Rightarrow> s)"

definition processFilePatch ::
  "(string \<Rightarrow> string \<Rightarrow> bool option) \<Rightarrow> string \<Rightarrow> bool \<Rightarrow> Commit \<Rightarrow> Tracker \<Rightarrow> FilePatch \<Rightarrow> Tracker" where
  "processFilePatch fpMatch filePattern validateMode commit s filePatch =
     (case (case fp_to filePatch of Some p \<Rightarrow> Some p | None \<Rightarrow> fp_from filePatch) of
        None \<Rightarrow> s
      | Some path \<Rightarrow>
          if \<not> matchesPattern fpMatch path filePattern then s
          else foldl (processChunk validateMode commit path) s (fp_chunks filePatch))"

definition laterCommit ::
  "(string \<Rightarrow> string \<Rightarrow> bool option) \<Rightarrow> string \<Rightarrow> bool \<Rightarrow> Tracker \<Rightarrow> Commit \<Rightarrow> Tracker" where
  "laterCommit fpMatch filePattern validateMode s commit =
     (case c_patch commit of
        None \<Rightarrow> s
      | Some patches \<Rightarrow> foldl (processFilePatch fpMatch filePattern validateMode commit) s patches)"

definition emptyTracker :: Tracker where
  "emptyTracker = \<lparr>codeLines = [], timeline = []\<rparr>"

fun replay2 ::
  "(string \<Rightarrow> string \<Rightarrow> bool option) \<Rightarrow> string \<Rightarrow> bool \<Rightarrow> Commit list \<Rightarrow> Tracker" where
  "replay2 fpMatch filePattern validateMode [] = emptyTracker"
| "replay2 fpMatch filePattern validateMode (c # cs) =
     foldl (laterCommit fpMatch filePattern validateMode)
       (firstCommit fpMatch filePattern validateMode emptyTracker c) cs"

subsection \<open>Statistics of the second program\<close>

record Tally =
  lifetimes :: "real list"
  totalLines2 :: nat
  survivingLines :: nat
  oldestLine :: "CodeLine option"
  newestLine :: "CodeLine option"
  oldestAge :: real
  newestAge :: real

definition emptyTally :: Tally where
  "emptyTally = \<lparr>lifetimes = [], totalLines2 = 0, survivingLines = 0, oldestLine = None,
                 newestLine = None, oldestAge = 0, newestAge = 0\<rparr>"

definition tallyLine :: "time \<Rightarrow> Tally \<Rightarrow> CodeLine \<Rightarrow> Tally" where
  "tallyLine now t line =
     (let t1 =
        (case cl_DeletedAt line of
           None \<Rightarrow>
             let a = t\<lparr>survivingLines := survivingLines t + 1\<rparr>;
                 age = hours (sub now (cl_CreatedAt line)) / 24
             in if 0 < age
                then
                  let b = a\<lparr>lifetimes := lifetimes a @ [age]\<rparr>;
                      c = (if oldestLine b = None \<or> oldestAge b < age
                           then b\<lparr>oldestLine := Some line, oldestAge := age\<rparr> else b)
                  in if newestLine c = None \<or> age < newestAge c
                     then c\<lparr>newestLine := Some line, newestAge := age\<rparr> else c
                else a
         | Some deletedAt \<Rightarrow>
             let lifetime = hours (sub deletedAt (cl_CreatedAt line)) / 24
             in if 0 < lifetime then t\<lparr>lifetimes := lifetimes t @ [lifetime]\<rparr> else t)
      in t1\<lparr>totalLines2 := totalLines2 t1 + 1\<rparr>)"

definition tallyLines :: "time \<Rightarrow> (string \<times> CodeLine) list \<Rightarrow> Tally" where
  "tallyLines now lines = foldl (tallyLine now) emptyTally (map snd lines)"

definition timePoints :: nat where
  "timePoints = 100"

definition timePoint :: "real \<Rightarrow> nat \<Rightarrow> real" where
  "timePoint maxAge i = (maxAge * real i) / real timePoints"

definition survived :: "real list \<Rightarrow> real \<Rightarrow> nat" where
  "survived ls tp = length (filter (\<lambda>lifetime. tp \<le> lifetime) ls)"

definition survivalRateOf :: "real list \<Rightarrow> real list" where
  "survivalRateOf ls =
     map (\<lambda>i. real (survived ls (timePoint (ls ! (length ls - 1)) i)) / real (length ls))
       [0 ..< timePoints]"

fun crossing :: "real \<Rightarrow> nat \<Rightarrow> real list \<Rightarrow> real" where
  "crossing maxAge i [] = 0"
| "crossing maxAge i (rate # rates) =
     (if rate \<le> 0.5 then timePoint maxAge i else crossing maxAge (Suc i) rates)"

definition halfLifeOf :: "real list \<Rightarrow> real" where
  "halfLifeOf ls =
     (let halfLife = crossing (ls ! (length ls - 1)) 0 (survivalRateOf ls)
      in if halfLife = 0 then ls ! (length ls div 2) else halfLife)"

text \<open>
  The one error the analysis returns, and the two run-time panics its last steps can
  raise (reading a field through a nil pointer, indexing an empty slice).
\<close>

datatype error = NoValidLifetimes | NilDereference | IndexOutOfRange

definition errorMessage :: "error \<Rightarrow> string" where
  "errorMessage e =
     (case e of
        NoValidLifetimes \<Rightarrow> ''no valid lifetimes found''
      | NilDereference \<Rightarrow> ''invalid memory address or nil pointer dereference''
      | IndexOutOfRange \<Rightarrow> ''index out of range'')"

definition statistics2 :: "time \<Rightarrow> Commit list \<Rightarrow> (string \<times> CodeLine) list \<Rightarrow> error + Stats2" where
  "statistics2 now commits lines =
     (let t = tallyLines now lines
      in if lifetimes t = [] then Inl NoValidLifetimes
         else
           let ls = sort (lifetimes t)
           in (case oldestLine t of
                 None \<Rightarrow> Inl NilDereference
               | Some oldest \<Rightarrow>
                   (case newestLine t of
                      None \<Rightarrow> Inl NilDereference
                    | Some newest \<Rightarrow>
                        (case commits of
                           [] \<Rightarrow> Inl IndexOutOfRange
                         | c # cs \<Rightarrow>
                             Inr \<lparr>vs_HalfLife = halfLifeOf ls,
                                  vs_TotalLines = totalLines2 t,
                                  vs_MedianAge = ls ! (length ls div 2),
                                  vs_SurvivalRate = survivalRateOf ls,
                                  vs_OldestLine = cl_Content oldest,
                                  vs_OldestLineAge = oldestAge t,
                                  vs_NewestLine = cl_Content newest,
                                  vs_NewestLineAge = newestAge t,
                                  vs_DeletedLines = totalLines2 t - survivingLines t,
                                  vs_SurvivingLines = survivingLines t,
                                  vs_FirstCommit = c_when c,
                                  vs_LastCommit = c_when (last (c # cs))\<rparr>))))"

text \<open>
  The result is the statistics alone, or in validation mode the statistics with the
  timeline (the report's map of sample lines is not part of this development).
\<close>

datatype Report = PlainStats Stats2 | Validation Stats2 "TimelineEvent list"

definition analyzeRepository2 ::
  "(string \<Rightarrow> string \<Rightarrow> bool option) \<Rightarrow> time \<Rightarrow> Commit list \<Rightarrow> string \<Rightarrow> bool \<Rightarrow> error + Report" where
  "analyzeRepository2 fpMatch now commits filePattern validateMode =
     (let s = replay2 fpMatch filePattern validateMode commits
      in (case statistics2 now commits (codeLines s) of
            Inl e \<Rightarrow> Inl e
          | Inr stats \<Rightarrow>
              Inr (if validateMode then Validation stats (timeline s) else PlainStats stats)))"

section \<open>The statistics of the second program in float64\<close>

text \<open>
  The lifetimes, the sampled ages and the surviving fractions are \<open>float64\<close> values,
  and every operation on them rounds. The statistics are stated once more with the
  rounding left open: \<open>rnd\<close> takes the exact result of an operation, or an integer
  being converted, to the \<open>float64\<close> the program holds. Round-to-nearest is monotone
  and leaves unchanged what is representable, among it the integers up to \<open>2^53\<close> and
  the powers \<open>1 / 2^k\<close> of the normal range; nothing else is asked of \<open>rnd\<close>. With
  the identity for \<open>rnd\<close> the definitions are the exact ones above.
\<close>

definition float64Rounding :: "(real \<Rightarrow> real) \<Rightarrow> bool" where
  "float64Rounding rnd =
     ((\<forall>x y. x \<le> y \<longrightarrow> rnd x \<le> rnd y)
      \<and> (\<forall>n :: int. \<bar>n\<bar> \<le> 2 ^ 53 \<longrightarrow> rnd (real_of_int n) = real_of_int n)
      \<and> (\<forall>k :: nat. k \<le> 1022 \<longrightarrow> rnd (1 / 2 ^ k) = 1 / 2 ^ k))"

text \<open>
  \<open>Duration.Hours()\<close>: the whole hours and the remaining nanoseconds of the duration
  (the integer division truncates towards zero), each converted, the nanoseconds
  divided by those of an hour, and the sum.
\<close>

definition Hour :: int where
  "Hour = 3600000000000"

definition hoursR :: "(real \<Rightarrow> real) \<Rightarrow> int \<Rightarrow> real" where
  "hoursR rnd d =
     (let hour = (if 0 \<le> d then d div Hour else - ((- d) div Hour));
          nsec = d - hour * Hour
      in rnd (rnd (real_of_int hour) + rnd (rnd (real_of_int nsec) / 3600000000000)))"

definition tallyLineR :: "(real \<Rightarrow> real) \<Rightarrow> time \<Rightarrow> Tally \<Rightarrow> CodeLine \<Rightarrow> Tally" where
  "tallyLineR rnd now t line =
     (let t1 =
        (case cl_DeletedAt line of
           None \<Rightarrow>
             let a = t\<lparr>survivingLines := survivingLines t + 1\<rparr>;
                 age = rnd (hoursR rnd (sub now (cl_CreatedAt line)) / 24)
             in if 0 < age
                then
                  let b = a\<lparr>lifetimes := lifetimes a @ [age]\<rparr>;
                      c = (if oldestLine b = None \<or> oldestAge b < age
                           then b\<lparr>oldestLine := Some line, oldestAge := age\<rparr> else b)
                  in if newestLine c = None \<or> age < newestAge c
                     then c\<lparr>newestLine := Some line, newestAge := age\<rparr> else c
                else a
         | Some deletedAt \<Rightarrow>
             let lifetime = rnd (hoursR rnd (sub deletedAt (cl_CreatedAt line)) / 24)
             in if 0 < lifetime then t\<lparr>lifetimes := lifetimes t @ [lifetime]\<rparr> else t)
      in t1\<lparr>totalLines2 := totalLines2 t1 + 1\<rparr>)"

definition tallyLinesR :: "(real \<Rightarrow> real) \<Rightarrow> time \<Rightarrow> (string \<times> CodeLine) list \<Rightarrow> Tally" where
  "tallyLinesR rnd now lines = foldl (tallyLineR rnd now) emptyTally (map snd lines)"

definition timePointR :: "(real \<Rightarrow> real) \<Rightarrow> real \<Rightarrow> nat \<Rightarrow> real" where
  "timePointR rnd maxAge i = rnd (rnd (maxAge * rnd (real i)) / rnd (real timePoints))"

definition survivalRateOfR :: "(real \<Rightarrow> real) \<Rightarrow> real list \<Rightarrow> real list" where
  "survivalRateOfR rnd ls =
     map (\<lambda>i. rnd (rnd (real (survived ls (timePointR rnd (ls ! (length ls - 1)) i)))
                   / rnd (real (length ls))))
       [0 ..< timePoints]"

fun crossingR :: "(real \<Rightarrow> real) \<Rightarrow> real \<Rightarrow> nat \<Rightarrow> real list \<Rightarrow> real" where
  "crossingR rnd maxAge i [] = 0"
| "crossingR rnd maxAge i (rate # rates) =
     (if rate \<le> 0.5 then timePointR rnd maxAge i else crossingR rnd maxAge (Suc i) rates)"

definition halfLifeOfR :: "(real \<Rightarrow> real) \<Rightarrow> real list \<Rightarrow> real" where
  "halfLifeOfR rnd ls =
     (let halfLife = crossingR rnd (ls ! (length ls - 1)) 0 (survivalRateOfR rnd ls)
      in if halfLife = 0 then ls ! (length ls div 2) else halfLife)"

definition statistics2R ::
  "(real \<Rightarrow> real) \<Rightarrow> time \<Rightarrow> Commit list \<Rightarrow> (string \<times> CodeLine) list \<Rightarrow> error + Stats2" where
  "statistics2R rnd now commits lines =
     (let t = tallyLinesR rnd now lines
      in if lifetimes t = [] then Inl NoValidLifetimes
         else
           let ls = sort (lifetimes t)
           in (case oldestLine t of
                 None \<Rightarrow> Inl NilDereference
               | Some oldest \<Rightarrow>
                   (case newestLine t of
                      None \<Rightarrow> Inl NilDereference
                    | Some newest \<Rightarrow>
                        (case commits of
                           [] \<Rightarrow> Inl IndexOutOfRange
                         | c # cs \<Rightarrow>
                             Inr \<lparr>vs_HalfLife = halfLifeOfR rnd ls,
                                  vs_TotalLines = totalLines2 t,
                                  vs_MedianAge = ls ! (length ls div 2),
                                  vs_SurvivalRate = survivalRateOfR rnd ls,
                                  vs_OldestLine = cl_Content oldest,
                                  vs_OldestLineAge = oldestAge t,
                                  vs_NewestLine = cl_Content newest,
                                  vs_NewestLineAge = newestAge t,
                                  vs_DeletedLines = totalLines2 t - survivingLines t,
                                  vs_SurvivingLines = survivingLines t,
                                  vs_FirstCommit = c_when c,
                                  vs_LastCommit = c_when (last (c # cs))\<rparr>))))"

section \<open>The specification's notions\<close>

text \<open>
  The lifetime of a record in the specification's words: the end time is the deletion
  time if there is one and the present otherwise, and the lifetime is the span from
  the creation to the end time, in days.
\<close>

definition specLifetime :: "time \<Rightarrow> CodeLine \<Rightarrow> real" where
  "specLifetime now r =
     hours (sub (case cl_DeletedAt r of Some deletedAt \<Rightarrow> deletedAt | None \<Rightarrow> now) (cl_CreatedAt r)) / 24"

text \<open>
  The surviving fraction of a sample at an age.
\<close>

definition survivalFraction :: "real list \<Rightarrow> real \<Rightarrow> real" where
  "survivalFraction sample age =
     real (length (filter (\<lambda>lifetime. age \<le> lifetime) sample)) / real (length sample)"

text \<open>The same lifetime, of a line history of the first program.\<close>

definition specLifetime1 :: "time \<Rightarrow> LineHistory \<Rightarrow> real" where
  "specLifetime1 now h =
     hours (sub (case lh_DeletedAt h of Some deletedAt \<Rightarrow> deletedAt | None \<Rightarrow> now) (lh_FirstSeen h)) / 24"

text \<open>
  The lifetime and the surviving fraction as the program computes them in \<open>float64\<close>,
  the ages at which the curve is sampled (\<open>timePoints\<close> ages evenly spaced from 0
  towards the greatest lifetime), and the median of a sorted sample in the
  specification's words: the middle value, the average of the two middle values when
  the count is even.
\<close>

definition specLifetimeR :: "(real \<Rightarrow> real) \<Rightarrow> time \<Rightarrow> CodeLine \<Rightarrow> real" where
  "specLifetimeR rnd now r =
     rnd (hoursR rnd
            (sub (case cl_DeletedAt r of Some deletedAt \<Rightarrow> deletedAt | None \<Rightarrow> now) (cl_CreatedAt r))
          / 24)"

definition survivalFractionR :: "(real \<Rightarrow> real) \<Rightarrow> real list \<Rightarrow> real \<Rightarrow> real" where
  "survivalFractionR rnd sample age =
     rnd (rnd (real (length (filter (\<lambda>lifetime. age \<le> lifetime) sample)))
          / rnd (real (length sample)))"

definition sampledAgesR :: "(real \<Rightarrow> real) \<Rightarrow> real \<Rightarrow> real set" where
  "sampledAgesR rnd maxAge =
     (\<lambda>i. rnd (rnd (maxAge * rnd (real i)) / rnd (real timePoints))) ` {i. i < timePoints}"

definition specMedian :: "real list \<Rightarrow> real" where
  "specMedian sample =
     (if even (length sample)
      then (sample ! (length sample div 2 - 1) + sample ! (length sample div 2)) / 2
      else sample ! (length sample div 2))"

section \<open>Predicates on the tracker's map\<close>

text \<open>
  A key is tracked with a creation time; it keeps a record (the creation time, the
  text, the file and the creating commit of a given record, and a deletion time if
  that record has one); the keys of the map are distinct; a key is tracked and deleted
  at a given time.
\<close>

definition tracked :: "Tracker \<Rightarrow> string \<Rightarrow> time \<Rightarrow> bool" where
  "tracked s k t = (case map_of (codeLines s) k of None \<Rightarrow> False | Some r \<Rightarrow> cl_CreatedAt r = t)"



definition trackedDeleted :: "Tracker \<Rightarrow> string \<Rightarrow> time \<Rightarrow> time \<Rightarrow> bool" where
  "trackedDeleted s k t d =
     (case map_of (codeLines s) k of
        None \<Rightarrow> False
      | Some r \<Rightarrow> cl_CreatedAt r = t \<and> cl_DeletedAt r = Some d)"

section \<open>Predicates on line histories\<close>

text \<open>
  The order of the events of a history: one Created event, then Modified events, then
  Deleted events, with a deletion time exactly when there is a Deleted event. A commit
  is tallied when the step that processes it reaches the update of the change
  frequency.
\<close>

definition lifecycle :: "LineHistory \<Rightarrow> bool" where
  "lifecycle h =
     (\<exists>m d. map ce_Type (lh_Changes h) = Created # replicate m Modified @ replicate d Deleted
            \<and> (lh_DeletedAt h = None \<longleftrightarrow> d = 0))"

definition tallied :: "Commit \<Rightarrow> bool" where
  "tallied commit = (c_tree commit \<noteq> None \<and> (0 < c_numParents commit \<longrightarrow> c_patch commit \<noteq> None))"

definition lifecycles :: "Analysis \<Rightarrow> bool" where
  "lifecycles a = (\<forall>h\<in>snd ` set (lineHistories a). lifecycle h)"

section \<open>Example histories\<close>

definition day :: int where "day = 86400000000000"

definition exCommit :: Commit where
  "exCommit = \<lparr>c_hash = ''c0'', c_when = 0, c_tree = Some [(''f'', Some ''x'')], c_numParents = 0, c_patch = None\<rparr>"

definition exLines :: "(string \<times> CodeLine) list" where
  "exLines =
     [(''f:a'', \<lparr>cl_Content = ''a'', cl_File = ''f'', cl_CreatedAt = 0, cl_DeletedAt = None,
                cl_CommitHash = ''c0'', cl_LastSeen = 0\<rparr>),
      (''f:b'', \<lparr>cl_Content = ''b'', cl_File = ''f'', cl_CreatedAt = 0, cl_DeletedAt = Some day,
                cl_CommitHash = ''c0'', cl_LastSeen = 0\<rparr>),
      (''f:c'', \<lparr>cl_Content = ''c'', cl_File = ''f'', cl_CreatedAt = day, cl_DeletedAt = Some day,
                cl_CommitHash = ''c1'', cl_LastSeen = day\<rparr>)]"

definition exPair :: "(string \<times> CodeLine) list" where
  "exPair =
     [(''f:a'', \<lparr>cl_Content = ''a'', cl_File = ''f'', cl_CreatedAt = 0, cl_DeletedAt = None,
                cl_CommitHash = ''c0'', cl_LastSeen = 0\<rparr>),
      (''f:b'', \<lparr>cl_Content = ''b'', cl_File = ''f'', cl_CreatedAt = day, cl_DeletedAt = None,
                cl_CommitHash = ''c1'', cl_LastSeen = day\<rparr>)]"

text \<open>
  A history of one file for the second program: the line is there in the first
  commit, removed by the next, restored, removed again and restored again. Each patch
  is the one from the commit to the commit before it, so the commit that removes the
  line carries it in an added chunk and the commit that restores it in a deleted
  chunk.
\<close>

definition exRemove :: Commit where
  "exRemove = \<lparr>c_hash = ''c1'', c_when = day, c_tree = Some [(''f'', Some [])], c_numParents = 1,
     c_patch = Some [\<lparr>fp_from = Some ''f'', fp_to = Some ''f'', fp_chunks = [(Add, ''x'')]\<rparr>]\<rparr>"

definition exRestore :: Commit where
  "exRestore = \<lparr>c_hash = ''c2'', c_when = 2 * day, c_tree = Some [(''f'', Some ''x'')], c_numParents = 1,
     c_patch = Some [\<lparr>fp_from = Some ''f'', fp_to = Some ''f'', fp_chunks = [(Delete, ''x'')]\<rparr>]\<rparr>"

definition exRemoveAgain :: Commit where
  "exRemoveAgain = \<lparr>c_hash = ''c3'', c_when = 3 * day, c_tree = Some [(''f'', Some [])], c_numParents = 1,
     c_patch = Some [\<lparr>fp_from = Some ''f'', fp_to = Some ''f'', fp_chunks = [(Add, ''x'')]\<rparr>]\<rparr>"

definition exRestoreAgain :: Commit where
  "exRestoreAgain = \<lparr>c_hash = ''c4'', c_when = 4 * day, c_tree = Some [(''f'', Some ''x'')], c_numParents = 1,
     c_patch = Some [\<lparr>fp_from = Some ''f'', fp_to = Some ''f'', fp_chunks = [(Delete, ''x'')]\<rparr>]\<rparr>"

text \<open>The tracker after the first four of these commits, outside validation mode.\<close>

definition exClosed :: Tracker where
  "exClosed = \<lparr>codeLines =
       [(''f:x'', \<lparr>cl_Content = ''x'', cl_File = ''f'', cl_CreatedAt = 0, cl_DeletedAt = Some (2 * day),
                  cl_CommitHash = ''c0'', cl_LastSeen = 3 * day\<rparr>)],
     timeline = []\<rparr>"

definition exHistories :: "(string \<times> LineHistory) list" where
  "exHistories =
     [(''a.go:1:p'',
       \<lparr>lh_File = ''a.go'', lh_Line = ''p'',
        lh_Changes = [\<lparr>ce_Timestamp = 0, ce_Type = Created, ce_NewValue = ''p'', ce_Distance = 0\<rparr>,
                      \<lparr>ce_Timestamp = 3 * day, ce_Type = Deleted, ce_NewValue = [], ce_Distance = 0\<rparr>],
        lh_FirstSeen = 0, lh_LastSeen = 0, lh_DeletedAt = Some (3 * day)\<rparr>),
      (''a.go:1:q'',
       \<lparr>lh_File = ''a.go'', lh_Line = ''q'',
        lh_Changes = [\<lparr>ce_Timestamp = 0, ce_Type = Created, ce_NewValue = ''q'', ce_Distance = 0\<rparr>,
                      \<lparr>ce_Timestamp = day, ce_Type = Deleted, ce_NewValue = [], ce_Distance = 0\<rparr>],
        lh_FirstSeen = 0, lh_LastSeen = 0, lh_DeletedAt = Some day\<rparr>)]"

text \<open>
  A log for the first program, newest commit first: one file whose only line
  alternates between two texts. Each patch is the one from the commit to its parent.
\<close>

definition exFileGo :: "Operation \<times> string \<Rightarrow> Operation \<times> string \<Rightarrow> FilePatch" where
  "exFileGo first second = \<lparr>fp_from = Some ''a.go'', fp_to = Some ''a.go'', fp_chunks = [first, second]\<rparr>"

definition exHead :: Commit where
  "exHead =
     \<lparr>c_hash = ''k4'', c_when = 4 * day, c_tree = Some [(''a.go'', Some ''y'')], c_numParents = 1,
      c_patch = Some [exFileGo (Delete, ''y'') (Add, ''x'')]\<rparr>"

definition exLog :: "Commit list" where
  "exLog =
     [exHead,
      \<lparr>c_hash = ''k3'', c_when = 3 * day, c_tree = Some [(''a.go'', Some ''x'')], c_numParents = 1,
       c_patch = Some [exFileGo (Delete, ''x'') (Add, ''y'')]\<rparr>,
      \<lparr>c_hash = ''k2'', c_when = 2 * day, c_tree = Some [(''a.go'', Some ''y'')], c_numParents = 1,
       c_patch = Some [exFileGo (Delete, ''y'') (Add, ''x'')]\<rparr>,
      \<lparr>c_hash = ''k1'', c_when = day, c_tree = Some [(''a.go'', Some ''x'')], c_numParents = 1,
       c_patch = Some [exFileGo (Delete, ''x'') (Add, ''y'')]\<rparr>,
      \<lparr>c_hash = ''k0'', c_when = 0, c_tree = Some [(''a.go'', Some ''y'')], c_numParents = 0,
       c_patch = None\<rparr>]"

text \<open>
  A second log for the first program, newest commit first: the only line of the file
  is changed twice, and the two newest commits carry the same author time.
\<close>

definition exSameHead :: Commit where
  "exSameHead =
     \<lparr>c_hash = ''m2'', c_when = day, c_tree = Some [(''a.go'', Some ''y'')], c_numParents = 1,
      c_patch = Some [exFileGo (Delete, ''y'') (Add, ''x'')]\<rparr>"

definition exSameTime :: "Commit list" where
  "exSameTime =
     [exSameHead,
      \<lparr>c_hash = ''m1'', c_when = day, c_tree = Some [(''a.go'', Some ''x'')], c_numParents = 1,
       c_patch = Some [exFileGo (Delete, ''x'') (Add, ''z'')]\<rparr>,
      \<lparr>c_hash = ''m0'', c_when = 0, c_tree = Some [(''a.go'', Some ''z'')], c_numParents = 0,
       c_patch = None\<rparr>]"

section \<open>Statistics of the second program: proofs\<close>

lemma tallyLine_lifetimes:
  "lifetimes (tallyLine now t r) = lifetimes t @ filter (\<lambda>x. 0 < x) [specLifetime now r]"
  by (simp add: tallyLine_def specLifetime_def Let_def split: option.splits)

lemma tallyLine_totalLines: "totalLines2 (tallyLine now t r) = Suc (totalLines2 t)"
  by (simp add: tallyLine_def Let_def split: option.splits)

lemma foldl_tallyLine_lifetimes:
  "lifetimes (foldl (tallyLine now) t rs) = lifetimes t @ filter (\<lambda>x. 0 < x) (map (specLifetime now) rs)"
  by (induction rs arbitrary: t) (simp_all add: tallyLine_lifetimes)

lemma foldl_tallyLine_totalLines:
  "totalLines2 (foldl (tallyLine now) t rs) = totalLines2 t + length rs"
  by (induction rs arbitrary: t) (simp_all add: tallyLine_totalLines)

lemma tallyLines_lifetimes:
  "lifetimes (tallyLines now lines) = filter (\<lambda>x. 0 < x) (map (specLifetime now \<circ> snd) lines)"
  by (simp add: tallyLines_def foldl_tallyLine_lifetimes emptyTally_def)

lemma tallyLines_totalLines: "totalLines2 (tallyLines now lines) = length lines"
  by (simp add: tallyLines_def foldl_tallyLine_totalLines emptyTally_def)

lemma tallyLines_positive: "x \<in> set (lifetimes (tallyLines now lines)) \<Longrightarrow> 0 < x"
  by (auto simp: tallyLines_lifetimes)

lemma survived_antimono: "a \<le> b \<Longrightarrow> survived ls b \<le> survived ls a"
proof (induction ls)
  case Nil
  then show ?case by (simp add: survived_def)
next
  case (Cons x xs)
  then show ?case by (auto simp: survived_def)
qed

lemma timePoint_mono: "0 \<le> m \<Longrightarrow> i \<le> j \<Longrightarrow> timePoint m i \<le> timePoint m j"
  by (simp add: timePoint_def timePoints_def mult_left_mono)

lemma timePoint_strict: "0 < m \<Longrightarrow> i < j \<Longrightarrow> timePoint m i < timePoint m j"
  by (simp add: timePoint_def timePoints_def)

lemma length_survivalRateOf: "length (survivalRateOf ls) = timePoints"
  by (simp add: survivalRateOf_def)

lemma survivalRateOf_nth:
  "i < timePoints \<Longrightarrow>
   survivalRateOf ls ! i = real (survived ls (timePoint (ls ! (length ls - 1)) i)) / real (length ls)"
  by (simp add: survivalRateOf_def)

lemma survivalRateOf_antimono:
  assumes "0 \<le> ls ! (length ls - 1)" "i \<le> j" "j < timePoints"
  shows "survivalRateOf ls ! j \<le> survivalRateOf ls ! i"
proof -
  have "survived ls (timePoint (ls ! (length ls - 1)) j) \<le> survived ls (timePoint (ls ! (length ls - 1)) i)"
    using assms by (intro survived_antimono timePoint_mono)
  then show ?thesis
    using assms by (simp add: survivalRateOf_nth divide_right_mono)
qed

lemma sorted_sample_last:
  assumes "xs \<noteq> []" "\<forall>x\<in>set xs. 0 < (x::real)"
  shows "0 < sort xs ! (length (sort xs) - 1)"
proof -
  have "length (sort xs) - 1 < length (sort xs)" using assms(1) by simp
  then have "sort xs ! (length (sort xs) - 1) \<in> set (sort xs)" by (rule nth_mem)
  then show ?thesis using assms(2) by simp
qed

lemma statistics2_Inr:
  assumes "statistics2 now commits lines = Inr st"
  shows "lifetimes (tallyLines now lines) \<noteq> []"
    and "vs_SurvivalRate st = survivalRateOf (sort (lifetimes (tallyLines now lines)))"
    and "vs_HalfLife st = halfLifeOf (sort (lifetimes (tallyLines now lines)))"
    and "vs_MedianAge st = sort (lifetimes (tallyLines now lines)) ! (length (sort (lifetimes (tallyLines now lines))) div 2)"
    and "vs_TotalLines st = totalLines2 (tallyLines now lines)"
  using assms
  by (auto simp: statistics2_def Let_def split: if_splits option.splits list.splits)


lemma survivalRateOf_fraction:
  "i < timePoints \<Longrightarrow>
   survivalRateOf ls ! i = survivalFraction ls (timePoint (ls ! (length ls - 1)) i)"
  by (simp add: survivalRateOf_nth survivalFraction_def survived_def)

lemma first_index:
  assumes "\<exists>k<n. P (k::nat)"
  shows "\<exists>k<n. P k \<and> (\<forall>j<k. \<not> P j)"
proof -
  from assms have "\<exists>k. k < n \<and> P k" by blast
  then obtain k where k: "k < n \<and> P k" "\<forall>j<k. \<not> (j < n \<and> P j)"
    unfolding exists_least_iff [of "\<lambda>k. k < n \<and> P k"] by blast
  then have "\<forall>j<k. \<not> P j" by (meson less_trans)
  with k show ?thesis by blast
qed

lemma sorted_last_Max:
  assumes "sorted ls" "ls \<noteq> []"
  shows "ls ! (length ls - 1) = Max (set (ls :: real list))"
proof -
  have n: "length ls - 1 < length ls" using assms(2) by simp
  have "Max (set ls) = ls ! (length ls - 1)"
  proof (rule Max_eqI)
    show "finite (set ls)" by simp
    show "ls ! (length ls - 1) \<in> set ls" using n by (rule nth_mem)
    fix y assume "y \<in> set ls"
    then obtain i where i: "i < length ls" "y = ls ! i" by (metis in_set_conv_nth)
    then have "i \<le> length ls - 1" by simp
    then show "y \<le> ls ! (length ls - 1)"
      using assms(1) n i by (simp add: sorted_nth_mono)
  qed
  then show ?thesis by simp
qed

lemma sample_facts:
  assumes "lifetimes (tallyLines now lines) \<noteq> []"
  defines "sample \<equiv> sort (lifetimes (tallyLines now lines))"
  shows "sample \<noteq> []" "\<forall>x\<in>set sample. 0 < x"
    "Max (set sample) = sample ! (length sample - 1)" "0 < Max (set sample)"
proof -
  show ne: "sample \<noteq> []" using assms(1) unfolding sample_def by (metis length_0_conv length_sort)
  show pos: "\<forall>x\<in>set sample. 0 < x" unfolding sample_def by (simp add: tallyLines_positive)
  show mx: "Max (set sample) = sample ! (length sample - 1)"
    using sorted_last_Max [of sample] ne unfolding sample_def by simp
  have "sample ! (length sample - 1) \<in> set sample" using ne by simp
  then show "0 < Max (set sample)" using pos mx by simp
qed

lemma exLines_sample: "lifetimes (tallyLines (100 * day) exLines) = [100, 1]"
  by (simp add: tallyLines_def exLines_def tallyLine_def emptyTally_def Let_def hours_def sub_def
      minDuration_def maxDuration_def day_def)

text \<open>
  Claim C9. In a report that is returned, the survival curve has one fraction per
  sampled age, the ages grow with the index, and the fraction at a later sampled age
  is at most the fraction at an earlier one.
\<close>

theorem survival_curve_nonincreasing:
  assumes "statistics2 now commits lines = Inr st" and "i < j" and "j < timePoints"
  shows "let sample = sort (lifetimes (tallyLines now lines)); maxAge = Max (set sample)
         in length (vs_SurvivalRate st) = timePoints
            \<and> vs_SurvivalRate st ! i = survivalFraction sample (timePoint maxAge i)
            \<and> vs_SurvivalRate st ! j = survivalFraction sample (timePoint maxAge j)
            \<and> timePoint maxAge i < timePoint maxAge j
            \<and> vs_SurvivalRate st ! j \<le> vs_SurvivalRate st ! i"
proof -
  define sample where "sample = sort (lifetimes (tallyLines now lines))"
  have ne: "lifetimes (tallyLines now lines) \<noteq> []" using assms(1) by (rule statistics2_Inr(1))
  note f = sample_facts [OF ne, folded sample_def]
  have sr: "vs_SurvivalRate st = survivalRateOf sample"
    unfolding sample_def using assms(1) by (rule statistics2_Inr(2))
  have i: "i < timePoints" using assms(2,3) by simp
  have 1: "length (vs_SurvivalRate st) = timePoints" by (simp add: sr length_survivalRateOf)
  have 2: "vs_SurvivalRate st ! i = survivalFraction sample (timePoint (Max (set sample)) i)"
    using i by (simp add: sr survivalRateOf_fraction f(3))
  have 3: "vs_SurvivalRate st ! j = survivalFraction sample (timePoint (Max (set sample)) j)"
    using assms(3) by (simp add: sr survivalRateOf_fraction f(3))
  have 4: "timePoint (Max (set sample)) i < timePoint (Max (set sample)) j"
    using f(4) assms(2) by (rule timePoint_strict)
  have "0 \<le> sample ! (length sample - 1)" using f(3,4) by simp
  then have 5: "vs_SurvivalRate st ! j \<le> vs_SurvivalRate st ! i"
    unfolding sr using assms(2,3) by (intro survivalRateOf_antimono) simp_all
  show ?thesis unfolding Let_def sample_def [symmetric] using 1 2 3 4 5 by blast
qed

theorem survival_curve_nonincreasing_witness:
  "\<exists>st. statistics2 (100 * day) [exCommit] exLines = Inr st \<and> (1::nat) < 2 \<and> 2 < timePoints
        \<and> vs_SurvivalRate st ! 2 \<le> vs_SurvivalRate st ! 1"
proof -
  obtain st where st: "statistics2 (100 * day) [exCommit] exLines = Inr st"
    by (simp add: statistics2_def exLines_sample Let_def tallyLines_def exLines_def tallyLine_def
        emptyTally_def hours_def sub_def minDuration_def maxDuration_def day_def)
  have a: "(1::nat) < 2" by simp
  have b: "2 < timePoints" by (simp add: timePoints_def)
  have "vs_SurvivalRate st ! 2 \<le> vs_SurvivalRate st ! 1"
    using survival_curve_nonincreasing [OF st a b] unfolding Let_def by blast
  then show ?thesis using st a b by (intro exI [of _ st]) simp
qed

text \<open>
  Claim C4. When no record of the replayed map has a positive lifetime, the sample is
  empty and the analysis returns the error "no valid lifetimes found" and no report.
\<close>

theorem empty_sample_is_failure:
  assumes "\<forall>r\<in>snd ` set (codeLines (replay2 fpMatch filePattern validateMode commits)).
             specLifetime now r \<le> 0"
  shows "lifetimes (tallyLines now (codeLines (replay2 fpMatch filePattern validateMode commits))) = []
         \<and> analyzeRepository2 fpMatch now commits filePattern validateMode = Inl NoValidLifetimes
         \<and> errorMessage NoValidLifetimes = ''no valid lifetimes found''"
proof -
  have "filter (\<lambda>x. 0 < x)
          (map (specLifetime now \<circ> snd) (codeLines (replay2 fpMatch filePattern validateMode commits))) = []"
    using assms by (auto simp: filter_empty_conv not_less)
  then have e: "lifetimes (tallyLines now (codeLines (replay2 fpMatch filePattern validateMode commits))) = []"
    by (simp add: tallyLines_lifetimes)
  then have "statistics2 now commits (codeLines (replay2 fpMatch filePattern validateMode commits))
             = Inl NoValidLifetimes"
    by (simp add: statistics2_def)
  then show ?thesis using e by (simp add: analyzeRepository2_def errorMessage_def)
qed

lemma ex_replay:
  "codeLines (replay2 (\<lambda>p f. None) ''*'' True [exCommit]) =
     [(''f:x'', \<lparr>cl_Content = ''x'', cl_File = ''f'', cl_CreatedAt = 0, cl_DeletedAt = None,
                cl_CommitHash = ''c0'', cl_LastSeen = 0\<rparr>)]"
  by (simp add: exCommit_def firstCommit_def snapshotFile_def matchesPattern_def snapshotLine_def
      asciiSpace_def lineKey_def newCodeLine_def emptyTracker_def Let_def)

theorem empty_sample_is_failure_witness:
  "length (codeLines (replay2 (\<lambda>p f. None) ''*'' True [exCommit])) = 1
   \<and> analyzeRepository2 (\<lambda>p f. None) 0 [exCommit] ''*'' True = Inl NoValidLifetimes"
proof -
  have h: "\<forall>r\<in>snd ` set (codeLines (replay2 (\<lambda>p f. None) ''*'' True [exCommit])). specLifetime 0 r \<le> 0"
    unfolding ex_replay
    by (simp add: specLifetime_def hours_def sub_def minDuration_def maxDuration_def Let_def)
  have "length (codeLines (replay2 (\<lambda>p f. None) ''*'' True [exCommit])) = 1"
    unfolding ex_replay by simp
  then show ?thesis using empty_sample_is_failure [OF h] by simp
qed

section \<open>The statistics in float64: proofs\<close>

lemma rounding_mono: "float64Rounding rnd \<Longrightarrow> x \<le> y \<Longrightarrow> rnd x \<le> rnd y"
  by (simp add: float64Rounding_def)

lemma rounding_int: "float64Rounding rnd \<Longrightarrow> \<bar>n\<bar> \<le> 2 ^ 53 \<Longrightarrow> rnd (real_of_int n) = real_of_int n"
  by (simp add: float64Rounding_def)

lemma rounding_zero: "float64Rounding rnd \<Longrightarrow> rnd 0 = 0"
  using rounding_int [of rnd 0] by simp

lemma rounding_one: "float64Rounding rnd \<Longrightarrow> rnd 1 = 1"
  using rounding_int [of rnd 1] by simp

lemma rounding_timePoints: "float64Rounding rnd \<Longrightarrow> rnd (real timePoints) = 100"
  using rounding_int [of rnd 100] by (simp add: timePoints_def)

lemma rounding_power: "float64Rounding rnd \<Longrightarrow> k \<le> 1022 \<Longrightarrow> rnd (1 / 2 ^ k) = 1 / 2 ^ k"
  by (simp add: float64Rounding_def)

lemma rounding_nonneg: "float64Rounding rnd \<Longrightarrow> 0 \<le> x \<Longrightarrow> 0 \<le> rnd x"
  using rounding_mono [of rnd 0 x] by (simp add: rounding_zero)

lemma rounding_nonpos: "float64Rounding rnd \<Longrightarrow> x \<le> 0 \<Longrightarrow> rnd x \<le> 0"
  using rounding_mono [of rnd x 0] by (simp add: rounding_zero)

lemma rounding_ge_one: "float64Rounding rnd \<Longrightarrow> 1 \<le> x \<Longrightarrow> 1 \<le> rnd x"
  using rounding_mono [of rnd 1 x] by (simp add: rounding_one)

lemma rounding_ge_power:
  "float64Rounding rnd \<Longrightarrow> k \<le> 1022 \<Longrightarrow> 1 / 2 ^ k \<le> x \<Longrightarrow> 1 / 2 ^ k \<le> rnd x"
  using rounding_mono [of rnd "1 / 2 ^ k" x] by (simp add: rounding_power)

lemma Hour_pos: "0 < Hour"
  by (simp add: Hour_def)

lemma hoursR_nonpos:
  assumes r: "float64Rounding rnd" and d: "d \<le> 0"
  shows "hoursR rnd d \<le> 0"
proof -
  define q where "q = (- d) div Hour"
  define m where "m = (- d) mod Hour"
  define hour where "hour = (if 0 \<le> d then d div Hour else - q)"
  define nsec where "nsec = d - hour * Hour"
  have e: "q * Hour + m = - d" unfolding q_def m_def by (rule div_mult_mod_eq)
  have m0: "0 \<le> m" unfolding m_def using Hour_pos by simp
  have q0: "0 \<le> q" unfolding q_def using d Hour_pos by (simp add: pos_imp_zdiv_nonneg_iff)
  have hq: "hour = - q"
  proof (cases "d = 0")
    case True
    then show ?thesis by (simp add: hour_def q_def)
  next
    case False
    then have "\<not> 0 \<le> d" using d by simp
    then show ?thesis by (simp add: hour_def)
  qed
  have h: "hour \<le> 0" using q0 hq by simp
  have "nsec = d + q * Hour" unfolding nsec_def hq by simp
  then have n: "nsec \<le> 0" using e m0 by linarith
  have 1: "rnd (real_of_int hour) \<le> 0" by (rule rounding_nonpos [OF r]) (use h in simp_all)
  have "rnd (real_of_int nsec) \<le> 0" by (rule rounding_nonpos [OF r]) (use n in simp_all)
  then have "rnd (real_of_int nsec) / 3600000000000 \<le> 0" by (simp add: divide_le_0_iff)
  then have 2: "rnd (rnd (real_of_int nsec) / 3600000000000) \<le> 0" by (rule rounding_nonpos [OF r])
  have "rnd (rnd (real_of_int hour) + rnd (rnd (real_of_int nsec) / 3600000000000)) \<le> 0"
    by (rule rounding_nonpos [OF r]) (use 1 2 in simp_all)
  moreover have "hoursR rnd d = rnd (rnd (real_of_int hour) + rnd (rnd (real_of_int nsec) / 3600000000000))"
    unfolding hoursR_def Let_def nsec_def hour_def q_def ..
  ultimately show ?thesis by simp
qed

lemma hoursR_pos:
  assumes r: "float64Rounding rnd" and d: "1 \<le> d"
  shows "1 / 2 ^ 42 \<le> hoursR rnd d"
proof -
  define hour where "hour = d div Hour"
  define m where "m = d mod Hour"
  define nsec where "nsec = d - hour * Hour"
  have hr: "hoursR rnd d = rnd (rnd (real_of_int hour) + rnd (rnd (real_of_int nsec) / 3600000000000))"
    using d by (simp add: hoursR_def hour_def nsec_def Let_def)
  have h: "0 \<le> hour" unfolding hour_def using d Hour_pos by (simp add: pos_imp_zdiv_nonneg_iff)
  have e: "hour * Hour + m = d" unfolding hour_def m_def by (rule div_mult_mod_eq)
  have m0: "0 \<le> m" unfolding m_def using Hour_pos by simp
  have n: "0 \<le> nsec" unfolding nsec_def using e m0 by linarith
  have rh: "0 \<le> rnd (real_of_int hour)" by (rule rounding_nonneg [OF r]) (use h in simp_all)
  have rn: "0 \<le> rnd (real_of_int nsec)" by (rule rounding_nonneg [OF r]) (use n in simp_all)
  then have "0 \<le> rnd (real_of_int nsec) / 3600000000000" by simp
  then have rq: "0 \<le> rnd (rnd (real_of_int nsec) / 3600000000000)" by (rule rounding_nonneg [OF r])
  have "1 / 2 ^ 42 \<le> rnd (real_of_int hour) + rnd (rnd (real_of_int nsec) / 3600000000000)"
  proof (cases "1 \<le> hour")
    case True
    have "1 \<le> rnd (real_of_int hour)" by (rule rounding_ge_one [OF r]) (use True in simp_all)
    moreover have "(1::real) / 2 ^ 42 \<le> 1" by simp
    ultimately show ?thesis using rq by linarith
  next
    case False
    then have "hour = 0" using h by simp
    then have nd: "nsec = d" by (simp add: nsec_def)
    have "1 \<le> rnd (real_of_int nsec)" by (rule rounding_ge_one [OF r]) (use d nd in simp_all)
    then have "1 / 3600000000000 \<le> rnd (real_of_int nsec) / 3600000000000"
      by (simp add: divide_right_mono)
    moreover have "(1::real) / 2 ^ 42 \<le> 1 / 3600000000000" by simp
    ultimately have b: "1 / 2 ^ 42 \<le> rnd (real_of_int nsec) / 3600000000000" by linarith
    have "1 / 2 ^ 42 \<le> rnd (rnd (real_of_int nsec) / 3600000000000)"
      by (rule rounding_ge_power [OF r]) (use b in simp_all)
    then show ?thesis using rh by linarith
  qed
  then have s: "1 / 2 ^ 42 \<le> rnd (real_of_int hour) + rnd (rnd (real_of_int nsec) / 3600000000000)" .
  show ?thesis unfolding hr by (rule rounding_ge_power [OF r]) (use s in simp_all)
qed

lemma daysR_bound:
  assumes r: "float64Rounding rnd" and p: "0 < rnd (hoursR rnd d / 24)"
  shows "1 / 2 ^ 47 \<le> rnd (hoursR rnd d / 24)"
proof -
  have "1 \<le> d"
  proof (rule ccontr)
    assume "\<not> 1 \<le> d"
    then have "d \<le> 0" by simp
    then have "hoursR rnd d \<le> 0" by (rule hoursR_nonpos [OF r])
    then have "hoursR rnd d / 24 \<le> 0" by simp
    then have "rnd (hoursR rnd d / 24) \<le> 0" by (rule rounding_nonpos [OF r])
    then show False using p by simp
  qed
  then have "1 / 2 ^ 42 \<le> hoursR rnd d" by (rule hoursR_pos [OF r])
  then have "1 / 2 ^ 42 / 24 \<le> hoursR rnd d / 24" by (simp add: divide_right_mono)
  moreover have "(1::real) / 2 ^ 47 \<le> 1 / 2 ^ 42 / 24" by simp
  ultimately have b: "1 / 2 ^ 47 \<le> hoursR rnd d / 24" by linarith
  show ?thesis by (rule rounding_ge_power [OF r]) (use b in simp_all)
qed

lemma tallyLineR_lifetimes:
  "lifetimes (tallyLineR rnd now t r) = lifetimes t @ filter (\<lambda>x. 0 < x) [specLifetimeR rnd now r]"
  by (simp add: tallyLineR_def specLifetimeR_def Let_def split: option.splits)

lemma foldl_tallyLineR_lifetimes:
  "lifetimes (foldl (tallyLineR rnd now) t rs)
     = lifetimes t @ filter (\<lambda>x. 0 < x) (map (specLifetimeR rnd now) rs)"
  by (induction rs arbitrary: t) (simp_all add: tallyLineR_lifetimes)

lemma tallyLinesR_lifetimes:
  "lifetimes (tallyLinesR rnd now lines)
     = filter (\<lambda>x. 0 < x) (map (specLifetimeR rnd now \<circ> snd) lines)"
  by (simp add: tallyLinesR_def foldl_tallyLineR_lifetimes emptyTally_def)

lemma tallyLinesR_bound:
  assumes "float64Rounding rnd" and "x \<in> set (lifetimes (tallyLinesR rnd now lines))"
  shows "1 / 2 ^ 47 \<le> x"
proof -
  from assms(2) obtain r where "x = specLifetimeR rnd now r" "0 < x"
    by (auto simp: tallyLinesR_lifetimes)
  then have "0 < rnd (hoursR rnd
            (sub (case cl_DeletedAt r of Some deletedAt \<Rightarrow> deletedAt | None \<Rightarrow> now) (cl_CreatedAt r))
          / 24)"
    by (simp add: specLifetimeR_def)
  with assms(1) have "1 / 2 ^ 47 \<le> rnd (hoursR rnd
            (sub (case cl_DeletedAt r of Some deletedAt \<Rightarrow> deletedAt | None \<Rightarrow> now) (cl_CreatedAt r))
          / 24)"
    by (rule daysR_bound)
  then show ?thesis using \<open>x = specLifetimeR rnd now r\<close> by (simp add: specLifetimeR_def)
qed

lemma rounding_nat_ge_one:
  assumes r: "float64Rounding rnd" and n: "1 \<le> n"
  shows "1 \<le> rnd (real n)"
  by (rule rounding_ge_one [OF r]) (use n in simp_all)

lemma timePointR_zero:
  assumes r: "float64Rounding rnd"
  shows "timePointR rnd m 0 = 0"
  by (simp add: timePointR_def rounding_zero [OF r])

lemma timePointR_mono:
  assumes r: "float64Rounding rnd" and m: "0 \<le> m" and ij: "i \<le> j"
  shows "timePointR rnd m i \<le> timePointR rnd m j"
proof -
  have "rnd (real i) \<le> rnd (real j)" by (rule rounding_mono [OF r]) (use ij in simp)
  then have "m * rnd (real i) \<le> m * rnd (real j)" using m by (rule mult_left_mono)
  then have "rnd (m * rnd (real i)) \<le> rnd (m * rnd (real j))" by (rule rounding_mono [OF r])
  then have "rnd (m * rnd (real i)) / rnd (real timePoints) \<le> rnd (m * rnd (real j)) / rnd (real timePoints)"
    by (simp add: rounding_timePoints [OF r] divide_right_mono)
  then show ?thesis unfolding timePointR_def by (rule rounding_mono [OF r])
qed

lemma timePointR_pos:
  assumes r: "float64Rounding rnd" and m: "1 / 2 ^ 47 \<le> m" and k: "1 \<le> k"
  shows "0 < timePointR rnd m k"
proof -
  have m0: "0 \<le> m" using m by (smt (verit) zero_le_divide_1_iff zero_le_power)
  have "1 \<le> rnd (real k)" using r k by (rule rounding_nat_ge_one)
  then have "m * 1 \<le> m * rnd (real k)" using m0 by (rule mult_left_mono)
  then have "m \<le> m * rnd (real k)" by (simp only: mult_1_right)
  with m have a: "1 / 2 ^ 47 \<le> m * rnd (real k)" by (rule order_trans)
  have b: "1 / 2 ^ 47 \<le> rnd (m * rnd (real k))"
    by (rule rounding_ge_power [OF r]) (use a in simp_all)
  then have "1 / 2 ^ 47 / 100 \<le> rnd (m * rnd (real k)) / 100" by (simp add: divide_right_mono)
  moreover have "(1::real) / 2 ^ 54 \<le> 1 / 2 ^ 47 / 100" by simp
  ultimately have c: "1 / 2 ^ 54 \<le> rnd (m * rnd (real k)) / 100" by linarith
  have "1 / 2 ^ 54 \<le> rnd (rnd (m * rnd (real k)) / 100)"
    by (rule rounding_ge_power [OF r]) (use c in simp_all)
  moreover have "(0::real) < 1 / 2 ^ 54" by simp
  ultimately have "0 < rnd (rnd (m * rnd (real k)) / 100)" by linarith
  then show ?thesis by (simp add: timePointR_def rounding_timePoints [OF r])
qed

lemma length_survivalRateOfR: "length (survivalRateOfR rnd ls) = timePoints"
  by (simp add: survivalRateOfR_def)

lemma survivalRateOfR_fraction:
  "i < timePoints \<Longrightarrow>
   survivalRateOfR rnd ls ! i = survivalFractionR rnd ls (timePointR rnd (ls ! (length ls - 1)) i)"
  by (simp add: survivalRateOfR_def survivalFractionR_def survived_def)

lemma survivalFractionR_zero:
  assumes r: "float64Rounding rnd" and ne: "ls \<noteq> []" and pos: "\<forall>x\<in>set ls. 0 < x"
  shows "survivalFractionR rnd ls 0 = 1"
proof -
  have f: "filter (\<lambda>lifetime. 0 \<le> lifetime) ls = ls"
    using pos by (intro filter_True) (auto intro: less_imp_le)
  have "1 \<le> length ls" using ne by (cases ls) simp_all
  with r have "1 \<le> rnd (real (length ls))" by (rule rounding_nat_ge_one)
  then have "rnd (real (length ls)) / rnd (real (length ls)) = 1" by simp
  then show ?thesis by (simp add: survivalFractionR_def f rounding_one [OF r])
qed

lemma sampledAgesR_iff:
  "a \<in> sampledAgesR rnd mx \<longleftrightarrow> (\<exists>i<timePoints. a = timePointR rnd mx i)"
  by (auto simp: sampledAgesR_def timePointR_def)

lemma crossingR_none: "\<forall>r\<in>set rs. \<not> r \<le> 1/2 \<Longrightarrow> crossingR rnd m i rs = 0"
  by (induction rs arbitrary: i) simp_all

lemma crossingR_first:
  "k < length rs \<Longrightarrow> rs ! k \<le> 1/2 \<Longrightarrow> \<forall>j<k. \<not> rs ! j \<le> 1/2 \<Longrightarrow>
   crossingR rnd m i rs = timePointR rnd m (i + k)"
proof (induction rs arbitrary: i k)
  case Nil
  then show ?case by simp
next
  case (Cons r rs)
  show ?case
  proof (cases k)
    case 0
    with Cons.prems show ?thesis by simp
  next
    case (Suc k')
    have r: "\<not> r \<le> 1/2" using Cons.prems(3) Suc by auto
    have "crossingR rnd m (Suc i) rs = timePointR rnd m (Suc i + k')"
      using Cons.prems Suc by (intro Cons.IH) auto
    with r Suc show ?thesis by simp
  qed
qed

lemma halfLifeOfR_crossing:
  assumes r: "float64Rounding rnd" and ne: "ls \<noteq> []" and pos: "\<forall>x\<in>set ls. 0 < x"
    and mx: "mx = ls ! (length ls - 1)" and m: "1 / 2 ^ 47 \<le> mx"
    and k: "k < timePoints" "survivalFractionR rnd ls (timePointR rnd mx k) \<le> 1/2"
    and before: "\<forall>j<k. \<not> survivalFractionR rnd ls (timePointR rnd mx j) \<le> 1/2"
  shows "halfLifeOfR rnd ls = timePointR rnd mx k"
proof -
  have "survivalFractionR rnd ls (timePointR rnd mx 0) = 1"
    using survivalFractionR_zero [OF r ne pos] by (simp add: timePointR_zero [OF r])
  then have "k \<noteq> 0" using k(2) by (cases "k = 0") simp_all
  then have "1 \<le> k" by simp
  with r m have "0 < timePointR rnd mx k" by (rule timePointR_pos)
  then have tpk: "timePointR rnd mx k \<noteq> 0" by simp
  have "\<forall>j<k. \<not> survivalRateOfR rnd ls ! j \<le> 1/2"
  proof (intro allI impI)
    fix j assume "j < k"
    then have "j < timePoints" using k(1) by simp
    then show "\<not> survivalRateOfR rnd ls ! j \<le> 1/2"
      using before \<open>j < k\<close> by (simp add: survivalRateOfR_fraction mx)
  qed
  moreover have "survivalRateOfR rnd ls ! k \<le> 1/2"
    using k by (simp add: survivalRateOfR_fraction mx)
  moreover have "k < length (survivalRateOfR rnd ls)"
    using k(1) by (simp add: length_survivalRateOfR)
  ultimately have "crossingR rnd mx 0 (survivalRateOfR rnd ls) = timePointR rnd mx (0 + k)"
    by (intro crossingR_first)
  then have "crossingR rnd (ls ! (length ls - 1)) 0 (survivalRateOfR rnd ls) = timePointR rnd mx k"
    by (simp add: mx)
  then show ?thesis using tpk unfolding halfLifeOfR_def Let_def by simp
qed

lemma halfLifeOfR_fallback:
  assumes mx: "mx = ls ! (length ls - 1)"
    and none: "\<forall>k<timePoints. \<not> survivalFractionR rnd ls (timePointR rnd mx k) \<le> 1/2"
  shows "halfLifeOfR rnd ls = ls ! (length ls div 2)"
proof -
  have "\<forall>r\<in>set (survivalRateOfR rnd ls). \<not> r \<le> 1/2"
  proof
    fix r assume "r \<in> set (survivalRateOfR rnd ls)"
    then obtain i where i: "i < timePoints" "r = survivalRateOfR rnd ls ! i"
      by (metis in_set_conv_nth length_survivalRateOfR)
    then show "\<not> r \<le> 1/2" using none by (simp add: survivalRateOfR_fraction mx)
  qed
  then have "crossingR rnd (ls ! (length ls - 1)) 0 (survivalRateOfR rnd ls) = 0"
    by (rule crossingR_none)
  then show ?thesis unfolding halfLifeOfR_def Let_def by simp
qed

lemma halfLifeOfR_spec:
  assumes r: "float64Rounding rnd" and ne: "ls \<noteq> []" and pos: "\<forall>x\<in>set ls. 0 < x"
    and mx: "mx = ls ! (length ls - 1)" and m: "1 / 2 ^ 47 \<le> mx"
  shows "if \<exists>a\<in>sampledAgesR rnd mx. survivalFractionR rnd ls a \<le> 1/2
         then halfLifeOfR rnd ls \<in> sampledAgesR rnd mx
              \<and> survivalFractionR rnd ls (halfLifeOfR rnd ls) \<le> 1/2
              \<and> (\<forall>b\<in>sampledAgesR rnd mx.
                    survivalFractionR rnd ls b \<le> 1/2 \<longrightarrow> halfLifeOfR rnd ls \<le> b)
         else halfLifeOfR rnd ls = ls ! (length ls div 2)"
proof (cases "\<exists>k<timePoints. survivalFractionR rnd ls (timePointR rnd mx k) \<le> 1/2")
  case True
  then obtain k where k: "k < timePoints" "survivalFractionR rnd ls (timePointR rnd mx k) \<le> 1/2"
    and before: "\<forall>j<k. \<not> survivalFractionR rnd ls (timePointR rnd mx j) \<le> 1/2"
    using first_index [of timePoints "\<lambda>k. survivalFractionR rnd ls (timePointR rnd mx k) \<le> 1/2"]
    by blast
  have h: "halfLifeOfR rnd ls = timePointR rnd mx k"
    using r ne pos mx m k before by (rule halfLifeOfR_crossing)
  have m0: "0 \<le> mx" using m by (smt (verit) zero_le_divide_1_iff zero_le_power)
  have 1: "halfLifeOfR rnd ls \<in> sampledAgesR rnd mx"
    unfolding sampledAgesR_iff h using k(1) by blast
  have 2: "survivalFractionR rnd ls (halfLifeOfR rnd ls) \<le> 1/2"
    unfolding h by (rule k(2))
  have 3: "\<forall>b\<in>sampledAgesR rnd mx. survivalFractionR rnd ls b \<le> 1/2 \<longrightarrow> halfLifeOfR rnd ls \<le> b"
  proof (intro ballI impI)
    fix b assume "b \<in> sampledAgesR rnd mx" and le: "survivalFractionR rnd ls b \<le> 1/2"
    then obtain j where j: "j < timePoints" "b = timePointR rnd mx j"
      unfolding sampledAgesR_iff by blast
    have "k \<le> j"
    proof (rule ccontr)
      assume "\<not> k \<le> j"
      then have "j < k" by simp
      then show False using before le j(2) by blast
    qed
    with r m0 have "timePointR rnd mx k \<le> timePointR rnd mx j" by (rule timePointR_mono)
    then show "halfLifeOfR rnd ls \<le> b" unfolding h j(2) .
  qed
  have ex: "\<exists>a\<in>sampledAgesR rnd mx. survivalFractionR rnd ls a \<le> 1/2" using 1 2 by blast
  show ?thesis
    unfolding if_P [OF ex] using 1 2 3 by blast
next
  case False
  then have none: "\<forall>k<timePoints. \<not> survivalFractionR rnd ls (timePointR rnd mx k) \<le> 1/2"
    by blast
  have h: "halfLifeOfR rnd ls = ls ! (length ls div 2)"
    using mx none by (rule halfLifeOfR_fallback)
  have nex: "\<not> (\<exists>a\<in>sampledAgesR rnd mx. survivalFractionR rnd ls a \<le> 1/2)"
    using none by (auto simp: sampledAgesR_iff)
  show ?thesis
    unfolding if_not_P [OF nex] by (rule h)
qed

lemma sampleR_facts:
  assumes r: "float64Rounding rnd" and ne: "lifetimes (tallyLinesR rnd now lines) \<noteq> []"
  defines "sample \<equiv> sort (lifetimes (tallyLinesR rnd now lines))"
  shows "sample \<noteq> []" "\<forall>x\<in>set sample. 0 < x"
    "Max (set sample) = sample ! (length sample - 1)" "1 / 2 ^ 47 \<le> Max (set sample)"
proof -
  show s: "sample \<noteq> []" using ne unfolding sample_def by (metis length_0_conv length_sort)
  have b: "\<forall>x\<in>set sample. 1 / 2 ^ 47 \<le> x"
    unfolding sample_def using tallyLinesR_bound [OF r] by simp
  show "\<forall>x\<in>set sample. 0 < x"
  proof
    fix x assume "x \<in> set sample"
    then have "1 / 2 ^ 47 \<le> x" using b by blast
    moreover have "(0::real) < 1 / 2 ^ 47" by simp
    ultimately show "0 < x" by linarith
  qed
  show mx: "Max (set sample) = sample ! (length sample - 1)"
    using sorted_last_Max [of sample] s unfolding sample_def by simp
  have "sample ! (length sample - 1) \<in> set sample" using s by simp
  then show "1 / 2 ^ 47 \<le> Max (set sample)" using b mx by simp
qed

lemma statistics2R_Inr:
  assumes "statistics2R rnd now commits lines = Inr st"
  shows "vs_HalfLife st = halfLifeOfR rnd (sort (lifetimes (tallyLinesR rnd now lines)))"
    and "vs_MedianAge st = sort (lifetimes (tallyLinesR rnd now lines))
                             ! (length (sort (lifetimes (tallyLinesR rnd now lines))) div 2)"
  using assms
  by (auto simp: statistics2R_def Let_def split: if_splits option.splits list.splits)

lemma exact_rounding: "float64Rounding (\<lambda>x. x)"
  by (simp add: float64Rounding_def)

lemma hoursR_exact: "hoursR (\<lambda>x. x) d = hours d"
proof -
  have 1: "real_of_int (d div Hour) + real_of_int (d - d div Hour * Hour) / 3600000000000
            = real_of_int d / 3600000000000"
    by (simp add: Hour_def field_simps)
  have 2: "real_of_int (- ((- d) div Hour)) + real_of_int (d - (- ((- d) div Hour)) * Hour) / 3600000000000
            = real_of_int d / 3600000000000"
    by (simp add: Hour_def field_simps)
  show ?thesis
    unfolding hoursR_def hours_def Let_def using 1 2 by (cases "0 \<le> d") simp_all
qed

lemma tallyLineR_exact: "tallyLineR (\<lambda>x. x) now t line = tallyLine now t line"
  by (simp add: tallyLineR_def tallyLine_def hoursR_exact Let_def split: option.splits)

lemma tallyLinesR_exact: "tallyLinesR (\<lambda>x. x) now lines = tallyLines now lines"
proof -
  have "tallyLineR (\<lambda>x. x) now = tallyLine now" by (intro ext) (rule tallyLineR_exact)
  then show ?thesis by (simp add: tallyLinesR_def tallyLines_def)
qed

lemma timePointR_exact: "timePointR (\<lambda>x. x) m i = timePoint m i"
  by (simp add: timePointR_def timePoint_def)

lemma survivalRateOfR_exact: "survivalRateOfR (\<lambda>x. x) ls = survivalRateOf ls"
  by (simp add: survivalRateOfR_def survivalRateOf_def timePointR_exact)

lemma crossingR_exact: "crossingR (\<lambda>x. x) m i rs = crossing m i rs"
  by (induction rs arbitrary: i) (simp_all add: timePointR_exact)

lemma halfLifeOfR_exact: "halfLifeOfR (\<lambda>x. x) ls = halfLifeOf ls"
  by (simp add: halfLifeOfR_def halfLifeOf_def crossingR_exact survivalRateOfR_exact)

lemma statistics2R_exact: "statistics2R (\<lambda>x. x) now commits lines = statistics2 now commits lines"
  by (simp add: statistics2R_def statistics2_def tallyLinesR_exact halfLifeOfR_exact
      survivalRateOfR_exact Let_def split: option.splits list.splits)

lemma exPair_sample: "lifetimes (tallyLinesR (\<lambda>x. x) (1000 * day) exPair) = [1000, 999]"
  by (simp add: tallyLinesR_exact tallyLines_def exPair_def tallyLine_def emptyTally_def Let_def
      hours_def sub_def minDuration_def maxDuration_def day_def)

lemma exPair_no_crossing:
  assumes "k < timePoints"
  shows "\<not> survivalFractionR (\<lambda>x. x) [999, 1000] (timePointR (\<lambda>x. x) 1000 k) \<le> 1/2"
proof -
  have "real k \<le> 99" using assms by (simp add: timePoints_def)
  then have "timePointR (\<lambda>x. x) 1000 k \<le> 990"
    by (simp add: timePointR_def timePoints_def)
  then have "filter (\<lambda>lifetime. timePointR (\<lambda>x. x) 1000 k \<le> lifetime) [999, 1000] = [999, 1000]"
    by simp
  then show ?thesis by (simp add: survivalFractionR_def)
qed

lemma exLines_sampleR: "lifetimes (tallyLinesR (\<lambda>x. x) (100 * day) exLines) = [100, 1]"
  by (simp add: tallyLinesR_exact exLines_sample)

text \<open>
  Claim C1 reads: when no sampled age has a surviving fraction of at most one half,
  the half-life is the median lifetime, the average of the two middle values for an
  even count. For the lifetimes 999 and 1000 days no sampled age has such a fraction
  (the ages are 0, 10, ..., 990), the half-life is 1000 and the median lifetime is
  999.5. All the values are whole numbers of days, so the \<open>float64\<close> run computes the
  same.
\<close>

theorem halfLife_fallback_counterexample:
  "sort (lifetimes (tallyLinesR (\<lambda>x. x) (1000 * day) exPair)) = [999, 1000]
   \<and> halfLifeOfR (\<lambda>x. x) [999, 1000] = 1000
   \<and> specMedian [999, 1000] = 1999 / 2"
proof -
  have 1: "sort (lifetimes (tallyLinesR (\<lambda>x. x) (1000 * day) exPair)) = [999, 1000]"
    by (simp add: exPair_sample)
  have "halfLifeOfR (\<lambda>x. x) [999, 1000] = [999, 1000] ! (length [999, 1000 :: real] div 2)"
  proof (rule halfLifeOfR_fallback [where mx = 1000])
    show "1000 = [999, 1000 :: real] ! (length [999, 1000 :: real] - 1)" by simp
    show "\<forall>k<timePoints.
            \<not> survivalFractionR (\<lambda>x. x) [999, 1000] (timePointR (\<lambda>x. x) 1000 k) \<le> 1/2"
      using exPair_no_crossing by blast
  qed
  then have 2: "halfLifeOfR (\<lambda>x. x) [999, 1000] = 1000" by simp
  have 3: "specMedian [999, 1000] = 1999 / 2" by (simp add: specMedian_def)
  show ?thesis using 1 2 3 by (intro conjI)
qed

text \<open>
  Claim C1, amended. Whenever the lifetime sample is not empty, the half-life computed
  from the sorted sample is the smallest of the sampled ages (the \<open>timePoints\<close> ages
  from 0 towards the greatest lifetime, as the program computes them) at which the
  surviving fraction the program computes is at most one half; when no sampled age
  has such a fraction, it is the element at index \<open>length div 2\<close> of the sorted
  sample, which the program reports as its median age and which for an even count is
  the upper of the two middle values, not their average. A report that is returned
  carries this half-life and this median age. This holds for every rounding of the
  kind described, the \<open>float64\<close> one and the exact one alike.
\<close>

theorem halfLife_first_sampled_age:
  assumes "float64Rounding rnd" and "lifetimes (tallyLinesR rnd now lines) \<noteq> []"
  shows "let sample = sort (lifetimes (tallyLinesR rnd now lines));
             maxAge = Max (set sample);
             halfLife = halfLifeOfR rnd sample
         in (if \<exists>a\<in>sampledAgesR rnd maxAge. survivalFractionR rnd sample a \<le> 1/2
             then halfLife \<in> sampledAgesR rnd maxAge
                  \<and> survivalFractionR rnd sample halfLife \<le> 1/2
                  \<and> (\<forall>b\<in>sampledAgesR rnd maxAge.
                        survivalFractionR rnd sample b \<le> 1/2 \<longrightarrow> halfLife \<le> b)
             else halfLife = sample ! (length sample div 2))
            \<and> (\<forall>st. statistics2R rnd now commits lines = Inr st \<longrightarrow>
                  vs_HalfLife st = halfLife \<and> vs_MedianAge st = sample ! (length sample div 2))"
proof -
  define sample where "sample = sort (lifetimes (tallyLinesR rnd now lines))"
  note f = sampleR_facts [OF assms, folded sample_def]
  have "if \<exists>a\<in>sampledAgesR rnd (Max (set sample)). survivalFractionR rnd sample a \<le> 1/2
        then halfLifeOfR rnd sample \<in> sampledAgesR rnd (Max (set sample))
             \<and> survivalFractionR rnd sample (halfLifeOfR rnd sample) \<le> 1/2
             \<and> (\<forall>b\<in>sampledAgesR rnd (Max (set sample)).
                   survivalFractionR rnd sample b \<le> 1/2 \<longrightarrow> halfLifeOfR rnd sample \<le> b)
        else halfLifeOfR rnd sample = sample ! (length sample div 2)"
    using assms(1) f by (rule halfLifeOfR_spec)
  moreover have "\<forall>st. statistics2R rnd now commits lines = Inr st \<longrightarrow>
          vs_HalfLife st = halfLifeOfR rnd sample \<and> vs_MedianAge st = sample ! (length sample div 2)"
    unfolding sample_def using statistics2R_Inr by blast
  ultimately show ?thesis unfolding Let_def sample_def by (rule conjI)
qed

theorem halfLife_first_sampled_age_witness:
  "sort (lifetimes (tallyLinesR (\<lambda>x. x) (100 * day) exLines)) = [1, 100]
   \<and> halfLifeOfR (\<lambda>x. x) [1, 100] \<le> 2
   \<and> sort (lifetimes (tallyLinesR (\<lambda>x. x) (1000 * day) exPair)) = [999, 1000]
   \<and> halfLifeOfR (\<lambda>x. x) [999, 1000] = 1000"
proof -
  have ne: "lifetimes (tallyLinesR (\<lambda>x. x) (100 * day) exLines) \<noteq> []"
    by (simp add: exLines_sampleR)
  have s: "sort (lifetimes (tallyLinesR (\<lambda>x. x) (100 * day) exLines)) = [1, 100]"
    by (simp add: exLines_sampleR)
  have two: "2 \<in> sampledAgesR (\<lambda>x. x) 100"
    unfolding sampledAgesR_def timePoints_def by (rule image_eqI [where x = 2]) simp_all
  have frac: "survivalFractionR (\<lambda>x. x) [1, 100] 2 \<le> 1/2" by (simp add: survivalFractionR_def)
  have ex: "\<exists>a\<in>sampledAgesR (\<lambda>x. x) 100. survivalFractionR (\<lambda>x. x) [1, 100] a \<le> 1/2"
    using two frac by blast
  have all: "\<forall>b\<in>sampledAgesR (\<lambda>x. x) 100.
               survivalFractionR (\<lambda>x. x) [1, 100] b \<le> 1/2 \<longrightarrow> halfLifeOfR (\<lambda>x. x) [1, 100] \<le> b"
    using halfLife_first_sampled_age [OF exact_rounding ne, of "[]"] ex unfolding s Let_def by simp
  have 1: "halfLifeOfR (\<lambda>x. x) [1, 100] \<le> 2" using bspec [OF all two] frac by (rule mp)
  have ne': "lifetimes (tallyLinesR (\<lambda>x. x) (1000 * day) exPair) \<noteq> []"
    by (simp add: exPair_sample)
  have s': "sort (lifetimes (tallyLinesR (\<lambda>x. x) (1000 * day) exPair)) = [999, 1000]"
    by (simp add: exPair_sample)
  have none: "\<not> (\<exists>a\<in>sampledAgesR (\<lambda>x. x) 1000. survivalFractionR (\<lambda>x. x) [999, 1000] a \<le> 1/2)"
    using exPair_no_crossing by (auto simp: sampledAgesR_iff)
  have "halfLifeOfR (\<lambda>x. x) [999, 1000] = [999, 1000] ! (length [999, 1000 :: real] div 2)"
    using halfLife_first_sampled_age [OF exact_rounding ne', of "[]"] none
    unfolding s' Let_def by simp
  then have 2: "halfLifeOfR (\<lambda>x. x) [999, 1000] = 1000" by simp
  show ?thesis using s 1 s' 2 by (intro conjI)
qed

section \<open>The tracker of the second program: proofs\<close>

lemma foldl_preserve:
  assumes "P s" and "\<And>s x. x \<in> set xs \<Longrightarrow> P s \<Longrightarrow> P (f s x)"
  shows "P (foldl f s xs)"
  using assms by (induction xs arbitrary: s) simp_all

lemma foldl_establish:
  assumes "a \<in> set xs" and "K s"
    and "\<And>s x. K s \<Longrightarrow> K (f s x)"
    and "\<And>s. K s \<Longrightarrow> D (f s a)"
    and "\<And>s x. D s \<Longrightarrow> D (f s x)"
  shows "D (foldl f s xs)"
  using assms(1,2)
proof (induction xs arbitrary: s)
  case Nil
  then show ?case by simp
next
  case (Cons x xs)
  show ?case
  proof (cases "a = x")
    case True
    have "D (f s x)" using Cons.prems(2) True assms(4) by simp
    then have "D (foldl f (f s x) xs)" by (rule foldl_preserve [where P = D]) (rule assms(5))
    then show ?thesis by simp
  next
    case False
    then have "a \<in> set xs" using Cons.prems(1) by simp
    moreover have "K (f s x)" using Cons.prems(2) by (rule assms(3))
    ultimately have "D (foldl f (f s x) xs)" by (rule Cons.IH)
    then show ?thesis by simp
  qed
qed

lemma snapshotLine_lookup:
  "map_of (codeLines (snapshotLine vm c name s line)) k =
     (if \<not> blank line \<and> k = lineKey name line then Some (newCodeLine c name line)
      else map_of (codeLines s) k)"
  by (simp add: snapshotLine_def Let_def update_conv')

lemma addLine_lookup:
  "map_of (codeLines (addLine vm c path s line)) k =
     (if \<not> blank line \<and> k = lineKey path line
      then (case map_of (codeLines s) k of
              None \<Rightarrow> Some (newCodeLine c path line)
            | Some cl \<Rightarrow> Some (cl\<lparr>cl_LastSeen := c_when c\<rparr>))
      else map_of (codeLines s) k)"
  by (simp add: addLine_def Let_def update_conv' split: option.splits)

lemma deleteLine_lookup:
  "map_of (codeLines (deleteLine vm c path s line)) k =
     (if \<not> blank line \<and> k = lineKey path line
      then (case map_of (codeLines s) k of
              None \<Rightarrow> None
            | Some cl \<Rightarrow> Some (cl\<lparr>cl_DeletedAt := Some (c_when c)\<rparr>))
      else map_of (codeLines s) k)"
  by (simp add: deleteLine_def Let_def update_conv' split: option.splits)

lemma processChunk_preserve:
  assumes "P s"
    and "\<And>s line. P s \<Longrightarrow> P (addLine vm c path s line)"
    and "\<And>s line. P s \<Longrightarrow> P (deleteLine vm c path s line)"
  shows "P (processChunk vm c path s chunk)"
proof (cases "fst chunk")
  case Equal
  then show ?thesis using assms(1) by (simp add: processChunk_def)
next
  case Add
  have "P (foldl (addLine vm c path) s (splitLines (snd chunk)))"
    using assms(1) by (rule foldl_preserve [where P = P]) (rule assms(2))
  then show ?thesis using Add by (simp add: processChunk_def)
next
  case Delete
  have "P (foldl (deleteLine vm c path) s (splitLines (snd chunk)))"
    using assms(1) by (rule foldl_preserve [where P = P]) (rule assms(3))
  then show ?thesis using Delete by (simp add: processChunk_def)
qed

lemma processFilePatch_preserve:
  assumes "P s"
    and "\<And>s path line. P s \<Longrightarrow> P (addLine vm c path s line)"
    and "\<And>s path line. P s \<Longrightarrow> P (deleteLine vm c path s line)"
  shows "P (processFilePatch fm pat vm c s fp)"
proof -
  have "\<And>path. P (foldl (processChunk vm c path) s (fp_chunks fp))"
    using assms(1)
    by (rule foldl_preserve [where P = P]) (rule processChunk_preserve [where P = P], assumption, (rule assms(2,3), assumption)+)
  then show ?thesis
    using assms(1) by (simp add: processFilePatch_def split: option.splits)
qed

lemma laterCommit_preserve:
  assumes "P s"
    and "\<And>s path line. P s \<Longrightarrow> P (addLine vm c path s line)"
    and "\<And>s path line. P s \<Longrightarrow> P (deleteLine vm c path s line)"
  shows "P (laterCommit fm pat vm s c)"
proof -
  have "\<And>patches. P (foldl (processFilePatch fm pat vm c) s patches)"
    using assms(1)
    by (rule foldl_preserve [where P = P]) (rule processFilePatch_preserve [where P = P], assumption, (rule assms(2,3), assumption)+)
  then show ?thesis
    using assms(1) by (simp add: laterCommit_def split: option.splits)
qed

lemma laterCommits_preserve:
  assumes "P s"
    and "\<And>c s path line. P s \<Longrightarrow> P (addLine vm c path s line)"
    and "\<And>c s path line. P s \<Longrightarrow> P (deleteLine vm c path s line)"
  shows "P (foldl (laterCommit fm pat vm) s cs)"
  using assms(1)
  by (rule foldl_preserve [where P = P]) (rule laterCommit_preserve [where P = P], assumption, (rule assms(2,3), assumption)+)

lemma snapshotFile_preserve:
  assumes "P s" and "\<And>s name line. P s \<Longrightarrow> P (snapshotLine vm c name s line)"
  shows "P (snapshotFile fm pat vm c s f)"
proof -
  have "\<And>content. P (foldl (snapshotLine vm c (fst f)) s (splitLines content))"
    using assms(1) by (rule foldl_preserve [where P = P]) (rule assms(2))
  then show ?thesis
    using assms(1) by (simp add: snapshotFile_def split: option.splits)
qed

lemma firstCommit_preserve:
  assumes "P s" and "\<And>s name line. P s \<Longrightarrow> P (snapshotLine vm c name s line)"
  shows "P (firstCommit fm pat vm s c)"
proof -
  have "\<And>files. P (foldl (snapshotFile fm pat vm c) s files)"
    using assms(1)
    by (rule foldl_preserve [where P = P]) (rule snapshotFile_preserve [where P = P], assumption, rule assms(2), assumption)
  then show ?thesis
    using assms(1) by (simp add: firstCommit_def split: option.splits)
qed

lemma firstCommit_establish:
  assumes tree: "c_tree c = Some files" and fl: "(name, Some content) \<in> set files"
    and pat: "matchesPattern fm name pat" and line: "line \<in> set (splitLines content)"
    and est: "\<And>s. P (snapshotLine vm c name s line)"
    and pres: "\<And>s name line. P s \<Longrightarrow> P (snapshotLine vm c name s line)"
  shows "P (firstCommit fm pat vm s c)"
proof -
  have one: "\<And>s. P (snapshotFile fm pat vm c s (name, Some content))"
  proof -
    fix s
    have "P (foldl (snapshotLine vm c name) s (splitLines content))"
      using line
      by (rule foldl_establish [where K = "\<lambda>s. True" and D = P]) (simp_all add: est pres)
    then show "P (snapshotFile fm pat vm c s (name, Some content))"
      using pat by (simp add: snapshotFile_def)
  qed
  have "P (foldl (snapshotFile fm pat vm c) s files)"
    using fl
  proof (rule foldl_establish [where K = "\<lambda>s. True" and D = P])
    show "True" ..
    show "\<And>s x. True \<Longrightarrow> True" .
    show "\<And>s. True \<Longrightarrow> P (snapshotFile fm pat vm c s (name, Some content))" by (rule one)
    show "\<And>s x. P s \<Longrightarrow> P (snapshotFile fm pat vm c s x)"
      by (rule snapshotFile_preserve [where P = P], assumption, rule pres, assumption)
  qed
  then show ?thesis using tree by (simp add: firstCommit_def)
qed

lemma tracked_snapshotLine:
  "tracked s k (c_when c) \<Longrightarrow> tracked (snapshotLine vm c name s line) k (c_when c)"
  by (simp add: tracked_def snapshotLine_lookup newCodeLine_def)

lemma tracked_snapshotLine_new:
  "\<not> blank line \<Longrightarrow> tracked (snapshotLine vm c name s line) (lineKey name line) (c_when c)"
  by (simp add: tracked_def snapshotLine_lookup newCodeLine_def)

lemma tracked_addLine: "tracked s k t \<Longrightarrow> tracked (addLine vm c path s line) k t"
  by (auto simp: tracked_def addLine_lookup split: option.splits)

lemma tracked_deleteLine: "tracked s k t \<Longrightarrow> tracked (deleteLine vm c path s line) k t"
  by (auto simp: tracked_def deleteLine_lookup split: option.splits)








lemma trackedDeleted_addLine:
  "trackedDeleted s k t d \<Longrightarrow> trackedDeleted (addLine vm c path s line) k t d"
  by (auto simp: trackedDeleted_def addLine_lookup split: option.splits)

lemma trackedDeleted_deleteLine:
  "trackedDeleted s k t (c_when c) \<Longrightarrow> trackedDeleted (deleteLine vm c path s line) k t (c_when c)"
  by (auto simp: trackedDeleted_def deleteLine_lookup split: option.splits)

lemma trackedDeleted_deleteLine_new:
  "\<not> blank line \<Longrightarrow> tracked s (lineKey path line) t \<Longrightarrow>
   trackedDeleted (deleteLine vm c path s line) (lineKey path line) t (c_when c)"
  by (auto simp: trackedDeleted_def tracked_def deleteLine_lookup split: option.splits)


lemmas tracker_defs =
  firstCommit_def snapshotFile_def matchesPattern_def snapshotLine_def laterCommit_def
  processFilePatch_def processChunk_def addLine_def deleteLine_def
  asciiSpace_def lineKey_def newCodeLine_def createEvent_def deleteEvent_def
  countDeletedLines_def emptyTracker_def Let_def

lemma ex_history:
  "replay2 (\<lambda>p f. None) ''*'' False [exCommit, exRemove, exRestore, exRemoveAgain] = exClosed"
  by (simp add: exCommit_def exRemove_def exRestore_def exRemoveAgain_def exClosed_def tracker_defs)

lemma ex_history_fits:
  "commitFits exRemove exCommit \<and> commitFits exRestore exRemove
   \<and> commitFits exRemoveAgain exRestore \<and> commitFits exRestoreAgain exRemoveAgain"
  by (simp add: commitFits_def patchFits_def fromText_def toText_def exCommit_def exRemove_def
      exRestore_def exRemoveAgain_def exRestoreAgain_def)




text \<open>
  Claim C3 reads: each non-blank line of the first commit's snapshot gets a record
  and a Created event. Outside validation mode the line gets its record and no event
  of any kind: the timeline stays empty.
\<close>

theorem first_commit_snapshot_counterexample:
  "codeLines (replay2 (\<lambda>p f. None) ''*'' False [exCommit]) =
     [(''f:x'', \<lparr>cl_Content = ''x'', cl_File = ''f'', cl_CreatedAt = 0, cl_DeletedAt = None,
                cl_CommitHash = ''c0'', cl_LastSeen = 0\<rparr>)]
   \<and> timeline (replay2 (\<lambda>p f. None) ''*'' False [exCommit]) = []"
  by (simp add: exCommit_def tracker_defs)

lemma timeline_snapshotLine:
  "e \<in> set (timeline s) \<Longrightarrow> e \<in> set (timeline (snapshotLine vm c name s line))"
  by (simp add: snapshotLine_def Let_def)

lemma timeline_addLine:
  "e \<in> set (timeline s) \<Longrightarrow> e \<in> set (timeline (addLine vm c path s line))"
  by (simp add: addLine_def Let_def split: option.splits)

lemma timeline_deleteLine:
  "e \<in> set (timeline s) \<Longrightarrow> e \<in> set (timeline (deleteLine vm c path s line))"
  by (simp add: deleteLine_def Let_def split: option.splits)

lemma no_timeline_snapshotLine:
  "timeline s = [] \<Longrightarrow> timeline (snapshotLine False c name s line) = []"
  by (simp add: snapshotLine_def Let_def)

lemma no_timeline_addLine:
  "timeline s = [] \<Longrightarrow> timeline (addLine False c path s line) = []"
  by (simp add: addLine_def Let_def split: option.splits)

lemma no_timeline_deleteLine:
  "timeline s = [] \<Longrightarrow> timeline (deleteLine False c path s line) = []"
  by (simp add: deleteLine_def Let_def split: option.splits)

lemma firstCommit_ignores_patch:
  "firstCommit fm pat vm s (c\<lparr>c_patch := p\<rparr>) = firstCommit fm pat vm s c"
proof -
  have 1: "snapshotLine vm (c\<lparr>c_patch := p\<rparr>) = snapshotLine vm c"
    by (intro ext) (simp add: snapshotLine_def newCodeLine_def createEvent_def Let_def)
  have 2: "snapshotFile fm pat vm (c\<lparr>c_patch := p\<rparr>) = snapshotFile fm pat vm c"
    by (intro ext) (simp add: snapshotFile_def 1 split: option.splits)
  show ?thesis by (simp add: firstCommit_def 2 split: option.splits)
qed

text \<open>
  Claim C3, amended. For a commit sequence whose first commit has a readable tree,
  every non-blank line of every readable file of that tree matching the pattern has,
  at the end of the replay, a record created at that commit's time; in validation
  mode the timeline holds a create event of that commit for the line, and outside
  validation mode the timeline is empty; the patch of the first commit plays no part
  in the replay.
\<close>

theorem first_commit_snapshot:
  assumes "c_tree c = Some files" and "(name, Some content) \<in> set files"
    and "matchesPattern fpMatch name filePattern"
    and "line \<in> set (splitLines content)" and "\<not> blank line"
  shows "(\<exists>r. map_of (codeLines (replay2 fpMatch filePattern validateMode (c # cs))) (lineKey name line)
                = Some r \<and> cl_CreatedAt r = c_when c)
         \<and> (\<exists>n. createEvent c name line n \<in> set (timeline (replay2 fpMatch filePattern True (c # cs))))
         \<and> timeline (replay2 fpMatch filePattern False (c # cs)) = []
         \<and> replay2 fpMatch filePattern validateMode (c\<lparr>c_patch := p\<rparr> # cs)
             = replay2 fpMatch filePattern validateMode (c # cs)"
proof -
  let ?k = "lineKey name line"
  have "tracked (firstCommit fpMatch filePattern validateMode emptyTracker c) ?k (c_when c)"
    using assms(1-4)
    by (rule firstCommit_establish [where P = "\<lambda>s. tracked s ?k (c_when c)"])
       (simp_all add: tracked_snapshotLine tracked_snapshotLine_new assms(5))
  then have "tracked (replay2 fpMatch filePattern validateMode (c # cs)) ?k (c_when c)"
    unfolding replay2.simps
    by (rule laterCommits_preserve [where P = "\<lambda>s. tracked s ?k (c_when c)"])
       (simp_all add: tracked_addLine tracked_deleteLine)
  then have 1: "\<exists>r. map_of (codeLines (replay2 fpMatch filePattern validateMode (c # cs))) ?k
                = Some r \<and> cl_CreatedAt r = c_when c"
    by (auto simp: tracked_def split: option.splits)
  let ?E = "\<lambda>s. \<exists>n. createEvent c name line n \<in> set (timeline s)"
  have "?E (firstCommit fpMatch filePattern True emptyTracker c)"
    using assms(1-4)
  proof (rule firstCommit_establish [where P = ?E])
    show "\<And>s. ?E (snapshotLine True c name s line)"
      using assms(5) by (auto simp: snapshotLine_def Let_def)
    show "\<And>s name' line'. ?E s \<Longrightarrow> ?E (snapshotLine True c name' s line')"
      using timeline_snapshotLine by blast
  qed
  then have 2: "?E (replay2 fpMatch filePattern True (c # cs))"
    unfolding replay2.simps
  proof (rule laterCommits_preserve [where P = ?E])
    show "\<And>c' s path line'. ?E s \<Longrightarrow> ?E (addLine True c' path s line')"
      using timeline_addLine by blast
    show "\<And>c' s path line'. ?E s \<Longrightarrow> ?E (deleteLine True c' path s line')"
      using timeline_deleteLine by blast
  qed
  have "timeline emptyTracker = []" by (simp add: emptyTracker_def)
  then have "timeline (firstCommit fpMatch filePattern False emptyTracker c) = []"
    by (rule firstCommit_preserve [where P = "\<lambda>s. timeline s = []"])
       (rule no_timeline_snapshotLine)
  then have 3: "timeline (replay2 fpMatch filePattern False (c # cs)) = []"
    unfolding replay2.simps
    by (rule laterCommits_preserve [where P = "\<lambda>s. timeline s = []"])
       (simp_all add: no_timeline_addLine no_timeline_deleteLine)
  have 4: "replay2 fpMatch filePattern validateMode (c\<lparr>c_patch := p\<rparr> # cs)
             = replay2 fpMatch filePattern validateMode (c # cs)"
    by (simp add: firstCommit_ignores_patch)
  show ?thesis using 1 2 3 4 by (intro conjI)
qed

theorem first_commit_snapshot_witness:
  "(\<exists>r. map_of (codeLines (replay2 (\<lambda>p f. None) ''*'' True [exCommit, exRemove])) (lineKey ''f'' ''x'')
                = Some r \<and> cl_CreatedAt r = 0)
   \<and> (\<exists>n. createEvent exCommit ''f'' ''x'' n
             \<in> set (timeline (replay2 (\<lambda>p f. None) ''*'' True [exCommit, exRemove])))"
proof -
  have a: "c_tree exCommit = Some [(''f'', Some ''x'')]" by (simp add: exCommit_def)
  have b: "(''f'', Some ''x'') \<in> set [(''f'', Some ''x'')]" by simp
  have c: "matchesPattern (\<lambda>p f. None) ''f'' ''*''" by (simp add: matchesPattern_def)
  have d: "''x'' \<in> set (splitLines ''x'')" by simp
  have e: "\<not> blank ''x''" by (simp add: asciiSpace_def)
  have w: "c_when exCommit = 0" by (simp add: exCommit_def)
  show ?thesis
    using first_commit_snapshot [OF a b c d e, of True "[exRemove]"] unfolding w by simp
qed

text \<open>
  Claim C10. When a later commit's patch has, in a file matching the pattern, a
  deleted chunk with a non-blank line whose key already has a closed record, the
  record's deletion time after that commit is the commit's time, its creation time
  is unchanged, and its lifetime, as the statistics collect it, runs from the creation
  to that commit.
\<close>

theorem later_deletion_overwrites:
  assumes "c_patch c = Some patches" and "fp \<in> set patches"
    and "(case fp_to fp of Some p \<Rightarrow> Some p | None \<Rightarrow> fp_from fp) = Some path"
    and "matchesPattern fpMatch path filePattern"
    and "(Delete, content) \<in> set (fp_chunks fp)"
    and "line \<in> set (splitLines content)" and "\<not> blank line"
    and "map_of (codeLines s) (lineKey path line) = Some r" and "cl_DeletedAt r = Some d"
  shows "\<exists>r'. map_of (codeLines (laterCommit fpMatch filePattern validateMode s c)) (lineKey path line)
                 = Some r'
              \<and> cl_DeletedAt r' = Some (c_when c)
              \<and> cl_CreatedAt r' = cl_CreatedAt r
              \<and> specLifetime now r' = hours (sub (c_when c) (cl_CreatedAt r)) / 24
              \<and> lifetimes (tallyLine now emptyTally r')
                  = filter (\<lambda>x. 0 < x) [hours (sub (c_when c) (cl_CreatedAt r)) / 24]"
proof -
  let ?k = "lineKey path line" and ?t = "cl_CreatedAt r"
  let ?K = "\<lambda>s. tracked s ?k ?t" and ?D = "\<lambda>s. trackedDeleted s ?k ?t (c_when c)"
  have K: "?K s" using assms(8) by (simp add: tracked_def)
  have chunkK: "\<And>s p ch. ?K s \<Longrightarrow> ?K (processChunk validateMode c p s ch)"
    by (rule processChunk_preserve [where P = ?K])
       (simp_all add: tracked_addLine tracked_deleteLine)
  have chunkD: "\<And>s p ch. ?D s \<Longrightarrow> ?D (processChunk validateMode c p s ch)"
    by (rule processChunk_preserve [where P = ?D])
       (simp_all add: trackedDeleted_addLine trackedDeleted_deleteLine)
  have chunkE: "\<And>s. ?K s \<Longrightarrow> ?D (processChunk validateMode c path s (Delete, content))"
  proof -
    fix s assume "?K s"
    with assms(6) have "?D (foldl (deleteLine validateMode c path) s (splitLines content))"
      by (rule foldl_establish [where K = ?K and D = ?D])
         (simp_all add: tracked_deleteLine trackedDeleted_deleteLine
            trackedDeleted_deleteLine_new assms(7))
    then show "?D (processChunk validateMode c path s (Delete, content))"
      by (simp add: processChunk_def)
  qed
  have fileK: "\<And>s f. ?K s \<Longrightarrow> ?K (processFilePatch fpMatch filePattern validateMode c s f)"
    by (rule processFilePatch_preserve [where P = ?K])
       (simp_all add: tracked_addLine tracked_deleteLine)
  have fileD: "\<And>s f. ?D s \<Longrightarrow> ?D (processFilePatch fpMatch filePattern validateMode c s f)"
    by (rule processFilePatch_preserve [where P = ?D])
       (simp_all add: trackedDeleted_addLine trackedDeleted_deleteLine)
  have fileE: "\<And>s. ?K s \<Longrightarrow> ?D (processFilePatch fpMatch filePattern validateMode c s fp)"
  proof -
    fix s assume "?K s"
    with assms(5) have "?D (foldl (processChunk validateMode c path) s (fp_chunks fp))"
      by (rule foldl_establish [where K = ?K and D = ?D]) (simp_all add: chunkK chunkD chunkE)
    then show "?D (processFilePatch fpMatch filePattern validateMode c s fp)"
      using assms(3,4) by (simp add: processFilePatch_def)
  qed
  have "?D (foldl (processFilePatch fpMatch filePattern validateMode c) s patches)"
    using assms(2) K
    by (rule foldl_establish [where K = ?K and D = ?D]) (simp_all add: fileK fileD fileE)
  then have "?D (laterCommit fpMatch filePattern validateMode s c)"
    using assms(1) by (simp add: laterCommit_def)
  then obtain r' where r': "map_of (codeLines (laterCommit fpMatch filePattern validateMode s c)) ?k = Some r'"
    "cl_CreatedAt r' = ?t" "cl_DeletedAt r' = Some (c_when c)"
    by (auto simp: trackedDeleted_def split: option.splits)
  have sp: "specLifetime now r' = hours (sub (c_when c) ?t) / 24"
    using r'(2,3) by (simp add: specLifetime_def)
  have "lifetimes (tallyLine now emptyTally r') = filter (\<lambda>x. 0 < x) [hours (sub (c_when c) ?t) / 24]"
    unfolding tallyLine_lifetimes sp by (simp add: emptyTally_def)
  then show ?thesis using r' sp by blast
qed

theorem later_deletion_overwrites_witness:
  "\<exists>r'. map_of (codeLines (laterCommit (\<lambda>p f. None) ''*'' False exClosed exRestoreAgain)) ''f:x'' = Some r'
        \<and> cl_DeletedAt r' = Some (4 * day)
        \<and> specLifetime 0 r' = 4"
proof -
  have a: "c_patch exRestoreAgain =
             Some [\<lparr>fp_from = Some ''f'', fp_to = Some ''f'', fp_chunks = [(Delete, ''x'')]\<rparr>]"
    by (simp add: exRestoreAgain_def)
  have b: "\<lparr>fp_from = Some ''f'', fp_to = Some ''f'', fp_chunks = [(Delete, ''x'')]\<rparr>
             \<in> set [\<lparr>fp_from = Some ''f'', fp_to = Some ''f'', fp_chunks = [(Delete, ''x'')]\<rparr>]"
    by simp
  have c: "(case fp_to \<lparr>fp_from = Some ''f'', fp_to = Some ''f'', fp_chunks = [(Delete, ''x'')]\<rparr> of
              Some p \<Rightarrow> Some p
            | None \<Rightarrow> fp_from \<lparr>fp_from = Some ''f'', fp_to = Some ''f'', fp_chunks = [(Delete, ''x'')]\<rparr>)
           = Some ''f''"
    by simp
  have d: "matchesPattern (\<lambda>p f. None) ''f'' ''*''" by (simp add: matchesPattern_def)
  have e: "(Delete, ''x'') \<in> set (fp_chunks \<lparr>fp_from = Some ''f'', fp_to = Some ''f'', fp_chunks = [(Delete, ''x'')]\<rparr>)"
    by simp
  have f: "''x'' \<in> set (splitLines ''x'')" by simp
  have g: "\<not> blank ''x''" by (simp add: asciiSpace_def)
  have h: "map_of (codeLines exClosed) (lineKey ''f'' ''x'') =
             Some \<lparr>cl_Content = ''x'', cl_File = ''f'', cl_CreatedAt = 0, cl_DeletedAt = Some (2 * day),
                    cl_CommitHash = ''c0'', cl_LastSeen = 3 * day\<rparr>"
    by (simp add: exClosed_def lineKey_def)
  have i: "cl_DeletedAt \<lparr>cl_Content = ''x'', cl_File = ''f'', cl_CreatedAt = 0, cl_DeletedAt = Some (2 * day),
                    cl_CommitHash = ''c0'', cl_LastSeen = 3 * day\<rparr> = Some (2 * day)"
    by simp
  have w: "c_when exRestoreAgain = 4 * day" by (simp add: exRestoreAgain_def)
  have v: "hours (sub (4 * day) 0) / 24 = 4"
    by (simp add: hours_def sub_def day_def minDuration_def maxDuration_def)
  obtain r' where
    "map_of (codeLines (laterCommit (\<lambda>p f. None) ''*'' False exClosed exRestoreAgain)) (lineKey ''f'' ''x'')
       = Some r'"
    "cl_DeletedAt r' = Some (4 * day)" "specLifetime 0 r' = hours (sub (4 * day) 0) / 24"
    using later_deletion_overwrites [OF a b c d e f g h i, of False 0]
    unfolding w by auto
  then show ?thesis
    unfolding v by (intro exI [of _ r']) (simp add: lineKey_def)
qed

section \<open>The first program: proofs\<close>

subsection \<open>calculateStats\<close>

lemma collectLifetime_fold:
  "foldl (collectLifetime now) acc hs = acc @ filter (\<lambda>x. 0 \<le> x) (map (specLifetime1 now) hs)"
  by (induction hs arbitrary: acc) (simp_all add: collectLifetime_def specLifetime1_def Let_def)

lemma calculateStats_median:
  assumes "filter (\<lambda>x. 0 \<le> x) (map (specLifetime1 now \<circ> snd) histories) \<noteq> []"
  shows "st_MedianLifetime (calculateStats now histories) =
           (let sample = sort (filter (\<lambda>x. 0 \<le> x) (map (specLifetime1 now \<circ> snd) histories));
                n = length sample
            in if n mod 2 = 0 then (sample ! (n div 2 - 1) + sample ! (n div 2)) / 2
               else sample ! (n div 2))"
  using assms by (simp add: calculateStats_def collectLifetime_fold Let_def)

lemma analyzeRepository_median:
  "st_MedianLifetime (fst (analyzeRepository now now' headCommit commits filePattern)) =
   st_MedianLifetime (calculateStats now (snd (analyzeRepository now now' headCommit commits filePattern)))"
  by (simp add: analyzeRepository_def Let_def)

text \<open>
  Claim C6. For a sample that is not empty, the median lifetime is the middle value of
  the sorted sample when the count is odd, and the average of the two middle values
  when the count is even; the analysis reports the median that \<open>calculateStats\<close>
  computes from the final map.
\<close>

theorem median_of_sorted_sample:
  assumes "sample = sort (filter (\<lambda>x. 0 \<le> x) (map (specLifetime1 now \<circ> snd) histories))"
    and "sample \<noteq> []"
  shows "(\<forall>k. length sample = 2 * k + 1 \<longrightarrow>
            st_MedianLifetime (calculateStats now histories) = sample ! k)
         \<and> (\<forall>k. length sample = 2 * k \<longrightarrow>
            st_MedianLifetime (calculateStats now histories) = (sample ! (k - 1) + sample ! k) / 2)
         \<and> (histories = snd (analyzeRepository now now' headCommit commits filePattern) \<longrightarrow>
            st_MedianLifetime (fst (analyzeRepository now now' headCommit commits filePattern))
              = st_MedianLifetime (calculateStats now histories))"
proof -
  have ne: "filter (\<lambda>x. 0 \<le> x) (map (specLifetime1 now \<circ> snd) histories) \<noteq> []"
    using assms by auto
  have m: "st_MedianLifetime (calculateStats now histories) =
           (if length sample mod 2 = 0
            then (sample ! (length sample div 2 - 1) + sample ! (length sample div 2)) / 2
            else sample ! (length sample div 2))"
    unfolding calculateStats_median [OF ne] assms(1) Let_def by simp
  have odd: "\<forall>k. length sample = 2 * k + 1 \<longrightarrow>
            st_MedianLifetime (calculateStats now histories) = sample ! k"
    unfolding m by auto
  have even: "\<forall>k. length sample = 2 * k \<longrightarrow>
            st_MedianLifetime (calculateStats now histories) = (sample ! (k - 1) + sample ! k) / 2"
    unfolding m by auto
  show ?thesis using odd even analyzeRepository_median by blast
qed

theorem median_of_sorted_sample_witness:
  "sort (filter (\<lambda>x. 0 \<le> x) (map (specLifetime1 0 \<circ> snd) exHistories)) = [1, 3]
   \<and> st_MedianLifetime (calculateStats 0 exHistories) = 2"
proof -
  have s: "[1, 3] = sort (filter (\<lambda>x. 0 \<le> x) (map (specLifetime1 0 \<circ> snd) exHistories))"
    by (simp add: exHistories_def specLifetime1_def hours_def sub_def minDuration_def
        maxDuration_def day_def Let_def)
  have ne: "[1, 3] \<noteq> ([] :: real list)" by simp
  have l: "length [1, 3 :: real] = 2 * 1" by simp
  have "st_MedianLifetime (calculateStats 0 exHistories) = ([1, 3] ! (1 - 1) + [1, 3] ! 1) / 2"
    using median_of_sorted_sample [OF s ne] l by blast
  then have "st_MedianLifetime (calculateStats 0 exHistories) = 2" by simp
  then show ?thesis using s [symmetric] by (intro conjI)
qed

subsection \<open>The replay\<close>

lemmas analysis_defs =
  analyzeCommit_def analyzeFilePatch_def analyzeChunk_def addedLine_def deletedLine_def
  equalLine_def tallyChanges_def tallyChange_def newEvent_def historyKey_def countLines_def
  hasPatternSuffix_def trimPrefixStar_def suffix_to_prefix asciiSpace_def emptyAnalysis_def exFileGo_def
  Let_def

lemma exLog_histories:
  "lineHistories (foldl (analyzeCommit ''*.go'') emptyAnalysis exLog) =
     [(''a.go:1:x'',
       \<lparr>lh_File = ''a.go'', lh_Line = ''x'',
        lh_Changes = [\<lparr>ce_Timestamp = 4 * day, ce_Type = Created, ce_NewValue = ''x'', ce_Distance = 0\<rparr>,
                      \<lparr>ce_Timestamp = 3 * day, ce_Type = Deleted, ce_NewValue = [], ce_Distance = 0\<rparr>,
                      \<lparr>ce_Timestamp = day, ce_Type = Deleted, ce_NewValue = [], ce_Distance = 0\<rparr>],
        lh_FirstSeen = 4 * day, lh_LastSeen = 4 * day, lh_DeletedAt = Some day\<rparr>),
      (''a.go:1:y'',
       \<lparr>lh_File = ''a.go'', lh_Line = ''y'',
        lh_Changes = [\<lparr>ce_Timestamp = 3 * day, ce_Type = Created, ce_NewValue = ''y'', ce_Distance = 0\<rparr>,
                      \<lparr>ce_Timestamp = 2 * day, ce_Type = Deleted, ce_NewValue = [], ce_Distance = 0\<rparr>],
        lh_FirstSeen = 3 * day, lh_LastSeen = 3 * day, lh_DeletedAt = Some (2 * day)\<rparr>)]"
  by (simp add: exLog_def exHead_def analysis_defs)

lemma exLog_created:
  "changeFrequency (foldl (analyzeCommit ''*.go'') emptyAnalysis exLog) ''Created'' = 9"
  by (simp add: exLog_def exHead_def analysis_defs)

lemma set_update_subset: "set (AList.update k v al) \<subseteq> insert (k, v) (set al)"
  by (induction al) auto

lemma lifecycle_new:
  "lifecycle \<lparr>lh_File = path, lh_Line = line, lh_Changes = [newEvent c Created line],
             lh_FirstSeen = t, lh_LastSeen = t, lh_DeletedAt = None\<rparr>"
  unfolding lifecycle_def by (rule exI [of _ 0], rule exI [of _ 0]) (simp add: newEvent_def)

lemma lifecycle_deleted:
  assumes "lifecycle h"
  shows "lifecycle (h\<lparr>lh_DeletedAt := Some t, lh_Changes := lh_Changes h @ [newEvent c Deleted v]\<rparr>)"
proof -
  from assms obtain m d where
    "map ce_Type (lh_Changes h) = Created # replicate m Modified @ replicate d Deleted"
    unfolding lifecycle_def by metis
  then have "map ce_Type (lh_Changes h @ [newEvent c Deleted v])
               = Created # replicate m Modified @ replicate (Suc d) Deleted"
    by (simp add: newEvent_def replicate_append_same)
  then show ?thesis
    unfolding lifecycle_def by (intro exI [of _ m] exI [of _ "Suc d"]) simp
qed

lemma lifecycle_modified:
  assumes "lifecycle h" and "lh_DeletedAt h = None"
  shows "lifecycle (h\<lparr>lh_LastSeen := t, lh_Changes := lh_Changes h @ [newEvent c Modified v]\<rparr>)"
proof -
  from assms(1) obtain m d where
    md: "map ce_Type (lh_Changes h) = Created # replicate m Modified @ replicate d Deleted"
      "(lh_DeletedAt h = None) = (d = 0)"
    unfolding lifecycle_def by metis
  then have "map ce_Type (lh_Changes h) = Created # replicate m Modified"
    using assms(2) by simp
  then have "map ce_Type (lh_Changes h @ [newEvent c Modified v])
               = Created # replicate (Suc m) Modified @ replicate 0 Deleted"
    by (simp add: newEvent_def replicate_append_same)
  then show ?thesis
    unfolding lifecycle_def using assms(2) by (intro exI [of _ "Suc m"] exI [of _ 0]) simp
qed

lemma lifecycle_seen: "lifecycle h \<Longrightarrow> lifecycle (h\<lparr>lh_LastSeen := t\<rparr>)"
  by (simp add: lifecycle_def)

lemma lifecycles_update:
  assumes "lifecycles a" and "lifecycle h"
  shows "lifecycles (a\<lparr>lineHistories := AList.update k h (lineHistories a)\<rparr>)"
  using assms set_update_subset [of k h "lineHistories a"]
  by (auto simp: lifecycles_def)

lemma lifecycles_lookup:
  "lifecycles a \<Longrightarrow> map_of (lineHistories a) k = Some h \<Longrightarrow> lifecycle h"
  by (force simp: lifecycles_def dest: map_of_SomeD)

lemma lifecycles_addedLine: "lifecycles a \<Longrightarrow> lifecycles (addedLine c path a line)"
  by (simp add: addedLine_def lifecycles_update lifecycle_new split: option.splits)

lemma lifecycles_deletedLine: "lifecycles a \<Longrightarrow> lifecycles (deletedLine c path a line)"
  by (auto simp: deletedLine_def split: option.splits
      intro!: lifecycles_update lifecycle_deleted dest: lifecycles_lookup)

lemma lifecycles_equalLine: "lifecycles a \<Longrightarrow> lifecycles (equalLine c path a line)"
  by (auto simp: equalLine_def Let_def split: option.splits
      intro!: lifecycles_update lifecycle_modified lifecycle_seen dest: lifecycles_lookup)

lemma analyzeChunk_preserve:
  assumes "P a"
    and "\<And>a line. P a \<Longrightarrow> P (addedLine c path a line)"
    and "\<And>a line. P a \<Longrightarrow> P (deletedLine c path a line)"
    and "\<And>a line. P a \<Longrightarrow> P (equalLine c path a line)"
    and "\<And>a n m. P a \<Longrightarrow> P (a\<lparr>totalEditSize := n, totalEdits := m\<rparr>)"
  shows "P (analyzeChunk c path a chunk)"
proof (cases "fst chunk")
  case Equal
  have "P (foldl (equalLine c path) a (splitLines (snd chunk)))"
    using assms(1) by (rule foldl_preserve [where P = P]) (rule assms(4))
  then show ?thesis using Equal by (simp add: analyzeChunk_def)
next
  case Add
  have "P (foldl (addedLine c path) a (splitLines (snd chunk)))"
    using assms(1) by (rule foldl_preserve [where P = P]) (rule assms(2))
  then show ?thesis using Add by (simp add: analyzeChunk_def Let_def assms(5))
next
  case Delete
  have "P (foldl (deletedLine c path) a (splitLines (snd chunk)))"
    using assms(1) by (rule foldl_preserve [where P = P]) (rule assms(3))
  then show ?thesis using Delete by (simp add: analyzeChunk_def Let_def assms(5))
qed

lemma analyzePatches_preserve:
  assumes "P a"
    and "\<And>a path line. P a \<Longrightarrow> P (addedLine c path a line)"
    and "\<And>a path line. P a \<Longrightarrow> P (deletedLine c path a line)"
    and "\<And>a path line. P a \<Longrightarrow> P (equalLine c path a line)"
    and "\<And>a n m. P a \<Longrightarrow> P (a\<lparr>totalEditSize := n, totalEdits := m\<rparr>)"
  shows "P (foldl (analyzeFilePatch pat c) a patches)"
  using assms(1)
proof (rule foldl_preserve [where P = P])
  fix a and fp :: FilePatch assume a: "P a"
  have "\<And>path. P (foldl (analyzeChunk c path) a (fp_chunks fp))"
    using a
    by (rule foldl_preserve [where P = P])
       (rule analyzeChunk_preserve [where P = P], assumption,
        (rule assms(2,3,4,5), assumption)+)
  then show "P (analyzeFilePatch pat c a fp)"
    using a by (simp add: analyzeFilePatch_def split: option.splits)
qed

lemma lifecycles_patches:
  "lifecycles a \<Longrightarrow> lifecycles (foldl (analyzeFilePatch pat c) a patches)"
proof (rule analyzePatches_preserve [where P = lifecycles])
  show "\<And>a n m. lifecycles a \<Longrightarrow> lifecycles (a\<lparr>totalEditSize := n, totalEdits := m\<rparr>)"
    by (simp add: lifecycles_def)
qed (simp_all add: lifecycles_addedLine lifecycles_deletedLine lifecycles_equalLine)

lemma frequency_patches:
  "changeFrequency (foldl (analyzeFilePatch pat c) a patches) = changeFrequency a"
proof -
  have "changeFrequency a = changeFrequency a" ..
  then show ?thesis
    by (rule analyzePatches_preserve [where P = "\<lambda>b. changeFrequency b = changeFrequency a"])
       (simp_all add: addedLine_def deletedLine_def equalLine_def Let_def split: option.splits)
qed

lemma created_once:
  assumes "lifecycle h"
  shows "length (filter (\<lambda>e. ce_Type e = Created) (lh_Changes h)) = 1"
proof -
  from assms obtain m d where
    t: "map ce_Type (lh_Changes h) = Created # replicate m Modified @ replicate d Deleted"
    unfolding lifecycle_def by metis
  have "length (filter (\<lambda>e. ce_Type e = Created) (lh_Changes h))
          = length (filter (\<lambda>t. t = Created) (map ce_Type (lh_Changes h)))"
    by (simp add: filter_map comp_def)
  also have "\<dots> = 1" unfolding t by simp
  finally show ?thesis .
qed

lemma tallyChange_created:
  "foldl tallyChange frequency changes ''Created''
     = frequency ''Created'' + length (filter (\<lambda>e. ce_Type e = Created) changes)"
  by (induction changes arbitrary: frequency)
     (simp_all add: tallyChange_def split: ChangeType.splits)

lemma tallyHistories_created:
  assumes "\<forall>h\<in>set hs. lifecycle h"
  shows "foldl (\<lambda>frequency history. foldl tallyChange frequency (lh_Changes history)) frequency hs
           ''Created'' = frequency ''Created'' + length hs"
  using assms
  by (induction hs arbitrary: frequency) (simp_all add: tallyChange_created created_once)

lemma tallyChanges_created:
  "lifecycles a \<Longrightarrow>
   changeFrequency (tallyChanges a) ''Created''
     = changeFrequency a ''Created'' + length (lineHistories a)"
  by (simp add: tallyChanges_def tallyHistories_created lifecycles_def)

lemma lifecycles_tallyChanges: "lifecycles a \<Longrightarrow> lifecycles (tallyChanges a)"
  by (simp add: lifecycles_def tallyChanges_def)

lemma lifecycles_analyzeCommit:
  assumes "lifecycles a"
  shows "lifecycles (analyzeCommit pat a c)"
proof -
  have 1: "\<And>n. lifecycles (a\<lparr>totalLines := n\<rparr>)" using assms by (simp add: lifecycles_def)
  show ?thesis
    using assms
    by (simp add: analyzeCommit_def Let_def 1 lifecycles_patches lifecycles_tallyChanges
        split: option.splits)
qed

lemma lifecycles_replay: "lifecycles (foldl (analyzeCommit pat) emptyAnalysis commits)"
proof (rule foldl_preserve [where P = lifecycles])
  show "lifecycles emptyAnalysis" by (simp add: lifecycles_def emptyAnalysis_def)
  show "\<And>a c. c \<in> set commits \<Longrightarrow> lifecycles a \<Longrightarrow> lifecycles (analyzeCommit pat a c)"
    by (rule lifecycles_analyzeCommit)
qed

lemma analyzeCommit_created:
  assumes "lifecycles a"
  shows "changeFrequency (analyzeCommit pat a c) ''Created''
           = changeFrequency a ''Created''
             + (if tallied c then length (lineHistories (analyzeCommit pat a c)) else 0)"
proof (cases "c_tree c")
  case None
  then show ?thesis by (simp add: analyzeCommit_def tallied_def)
next
  case (Some files)
  define a1 where "a1 = a\<lparr>totalLines := totalLines a + countLines pat files\<rparr>"
  have l1: "lifecycles a1" using assms by (simp add: a1_def lifecycles_def)
  have f1: "changeFrequency a1 = changeFrequency a" by (simp add: a1_def)
  show ?thesis
  proof (cases "0 < c_numParents c")
    case False
    then have "analyzeCommit pat a c = tallyChanges a1"
      using Some by (simp add: analyzeCommit_def a1_def)
    moreover have "lineHistories (tallyChanges a1) = lineHistories a1"
      by (simp add: tallyChanges_def)
    ultimately show ?thesis
      using False Some tallyChanges_created [OF l1] by (simp add: tallied_def f1)
  next
    case True
    show ?thesis
    proof (cases "c_patch c")
      case None
      then have "analyzeCommit pat a c = a1"
        using Some True by (simp add: analyzeCommit_def a1_def)
      then show ?thesis using None True by (simp add: tallied_def f1)
    next
      case (Some patches)
      define a2 where "a2 = foldl (analyzeFilePatch pat c) a1 patches"
      have l2: "lifecycles a2" using l1 unfolding a2_def by (rule lifecycles_patches)
      have f2: "changeFrequency a2 = changeFrequency a"
        unfolding a2_def by (simp add: frequency_patches f1)
      have "analyzeCommit pat a c = tallyChanges a2"
        using Some True \<open>c_tree c = Some files\<close>
        by (simp add: analyzeCommit_def a1_def a2_def)
      moreover have "lineHistories (tallyChanges a2) = lineHistories a2"
        by (simp add: tallyChanges_def)
      ultimately show ?thesis
        using Some True \<open>c_tree c = Some files\<close> tallyChanges_created [OF l2]
        by (simp add: tallied_def f2)
    qed
  qed
qed

lemma created_running_total:
  "changeFrequency (foldl (analyzeCommit pat) emptyAnalysis commits) ''Created''
     = sum_list
         (map (\<lambda>i. if tallied (commits ! i)
                    then length (lineHistories
                           (foldl (analyzeCommit pat) emptyAnalysis (take (Suc i) commits)))
                    else 0)
            [0 ..< length commits])"
proof (induction commits rule: rev_induct)
  case Nil
  then show ?case by (simp add: emptyAnalysis_def)
next
  case (snoc c cs)
  let ?g = "\<lambda>xs i. if tallied (xs ! i)
                    then length (lineHistories
                           (foldl (analyzeCommit pat) emptyAnalysis (take (Suc i) xs)))
                    else 0"
  have same: "map (?g (cs @ [c])) [0 ..< length cs] = map (?g cs) [0 ..< length cs]"
    by (rule map_cong) (simp_all add: nth_append)
  have last: "?g (cs @ [c]) (length cs)
               = (if tallied c
                  then length (lineHistories (foldl (analyzeCommit pat) emptyAnalysis (cs @ [c])))
                  else 0)"
    by simp
  have step: "changeFrequency (foldl (analyzeCommit pat) emptyAnalysis (cs @ [c])) ''Created''
                = changeFrequency (foldl (analyzeCommit pat) emptyAnalysis cs) ''Created''
                  + ?g (cs @ [c]) (length cs)"
    unfolding last
    using analyzeCommit_created [OF lifecycles_replay [where pat = pat and commits = cs],
            where pat = pat and c = c]
    by simp
  have split: "[0 ..< length (cs @ [c])] = [0 ..< length cs] @ [length cs]" by simp
  have "sum_list (map (?g (cs @ [c])) [0 ..< length (cs @ [c])])
          = sum_list (map (?g (cs @ [c])) [0 ..< length cs]) + ?g (cs @ [c]) (length cs)"
    unfolding split
    by (simp only: map_append sum_list_append list.map sum_list.Cons sum_list.Nil add_0_right)
  then have "sum_list (map (?g (cs @ [c])) [0 ..< length (cs @ [c])])
          = sum_list (map (?g cs) [0 ..< length cs]) + ?g (cs @ [c]) (length cs)"
    unfolding same .
  then show ?case unfolding step snoc.IH by (rule sym)
qed

lemma exLog_fits: "list_all2 commitFits (butlast exLog) (tl exLog)"
  by (simp add: exLog_def exHead_def exFileGo_def commitFits_def patchFits_def fromText_def
      toText_def)

text \<open>
  Claim C7: a record has at most one Deleted event, and it is the last event. The
  branch for an unchanged chunk appends a Modified event only while the record has no
  deletion time; the branch for a deleted chunk has no such test and appends a Deleted
  event to a record that already has one. For the log of five commits in which the
  only line of \<open>a.go\<close> alternates between two texts, the record of the line \<open>x\<close>
  ends with the events Created, Deleted, Deleted, its deletion time being that of the
  second.
\<close>

theorem repeated_deleted_event:
  "map (map ce_Type) (map lh_Changes (map snd (snd (analyzeRepository 0 0 (Some exHead) exLog ''*.go''))))
     = [Created, Deleted, Deleted] # [Created, Deleted] # []
   \<and> map lh_DeletedAt (map snd (snd (analyzeRepository 0 0 (Some exHead) exLog ''*.go'')))
     = [Some day, Some (2 * day)]"
  by (simp add: analyzeRepository_def Let_def exLog_histories)

text \<open>
  Claim C8: with no line left out as blank or by the pattern, the final count for
  Created equals the number of lines tracked. The loop that updates the change
  frequency runs once per commit over all the events of all the records, so an event
  is counted again at every later commit of the iteration. For the same log the count
  for Created is 9, while the map holds 2 records, each with one Created event, and
  the total reported is 1.
\<close>

theorem created_counted_at_every_commit:
  "st_ChangeFrequency (fst (analyzeRepository 0 0 (Some exHead) exLog ''*.go'')) ''Created'' = 9
   \<and> length (snd (analyzeRepository 0 0 (Some exHead) exLog ''*.go'')) = 2
   \<and> map (\<lambda>h. length (filter (\<lambda>e. ce_Type e = Created) (lh_Changes h)))
        (map snd (snd (analyzeRepository 0 0 (Some exHead) exLog ''*.go''))) = [1, 1]
   \<and> st_TotalLinesTracked (fst (analyzeRepository 0 0 (Some exHead) exLog ''*.go'')) = 1"
  by (simp add: analyzeRepository_def Let_def exLog_histories exLog_created currentLines_def
      exHead_def countLines_def hasPatternSuffix_def trimPrefixStar_def suffix_to_prefix)


section \<open>The lifetime sample of both programs\<close>

lemma foldl_sum:
  "foldl (\<lambda>sum lifetime. sum + f lifetime) a xs = a + sum_list (map f xs)"
  for a :: real
  by (induction xs arbitrary: a) simp_all

lemma calculateStats_empty:
  assumes "filter (\<lambda>x. 0 \<le> x) (map (specLifetime1 now \<circ> snd) histories) = []"
  shows "calculateStats now histories = zeroStats"
  using assms by (simp add: calculateStats_def collectLifetime_fold Let_def)

lemma calculateStats_sample:
  assumes "sample = sort (filter (\<lambda>x. 0 \<le> x) (map (specLifetime1 now \<circ> snd) histories))"
    and "sample \<noteq> []"
    and "mean = sum_list sample / real (length sample)"
  shows "st_LinesWithChanges (calculateStats now histories) = length sample"
    and "st_MeanLifetime (calculateStats now histories) = mean"
    and "st_StdDevLifetime (calculateStats now histories) =
           sqrt (sum_list (map (\<lambda>x. (x - mean) * (x - mean)) sample) / real (length sample))"
    and "st_MedianLifetime (calculateStats now histories) = specMedian sample"
    and "st_HalfLife (calculateStats now histories) = specMedian sample * ln 2"
    and "st_NewestCode (calculateStats now histories) = sample ! 0"
    and "st_OldestCode (calculateStats now histories) = sample ! (length sample - 1)"
    and "st_TotalLinesTracked (calculateStats now histories) = length histories"
proof -
  have ne: "filter (\<lambda>x. 0 \<le> x) (map (specLifetime1 now \<circ> snd) histories) \<noteq> []"
    using assms(1,2) by auto
  have s: "foldl (\<lambda>sum lifetime. sum + lifetime) 0 sample = sum_list sample"
    using foldl_sum [of "\<lambda>x. x" 0 sample] by simp
  have q: "foldl (\<lambda>sumSquares lifetime. sumSquares + (lifetime - mean) * (lifetime - mean)) 0 sample
             = sum_list (map (\<lambda>x. (x - mean) * (x - mean)) sample)"
    using foldl_sum [of "\<lambda>x. (x - mean) * (x - mean)" 0 sample] by simp
  show "st_LinesWithChanges (calculateStats now histories) = length sample"
    using ne by (simp add: calculateStats_def collectLifetime_fold Let_def assms(1))
  show m: "st_MeanLifetime (calculateStats now histories) = mean"
    using ne s by (simp add: calculateStats_def collectLifetime_fold Let_def assms(1,3))
  show "st_StdDevLifetime (calculateStats now histories) =
           sqrt (sum_list (map (\<lambda>x. (x - mean) * (x - mean)) sample) / real (length sample))"
    using ne s q by (simp add: calculateStats_def collectLifetime_fold Let_def assms(1,3))
  show "st_MedianLifetime (calculateStats now histories) = specMedian sample"
    using ne
    by (simp add: calculateStats_def collectLifetime_fold Let_def assms(1) specMedian_def
        even_iff_mod_2_eq_zero)
  show "st_HalfLife (calculateStats now histories) = specMedian sample * ln 2"
    using ne
    by (simp add: calculateStats_def collectLifetime_fold Let_def assms(1) specMedian_def
        even_iff_mod_2_eq_zero)
  show "st_NewestCode (calculateStats now histories) = sample ! 0"
    using ne by (simp add: calculateStats_def collectLifetime_fold Let_def assms(1))
  show "st_OldestCode (calculateStats now histories) = sample ! (length sample - 1)"
    using ne by (simp add: calculateStats_def collectLifetime_fold Let_def assms(1))
  show "st_TotalLinesTracked (calculateStats now histories) = length histories"
    using ne by (simp add: calculateStats_def collectLifetime_fold Let_def)
qed

lemma analyzeRepository_stats:
  "st_TotalLinesTracked (fst (analyzeRepository now now' headCommit commits filePattern))
     = currentLines filePattern headCommit"
  "st_LinesWithChanges (fst (analyzeRepository now now' headCommit commits filePattern))
     = st_LinesWithChanges (calculateStats now (snd (analyzeRepository now now' headCommit commits filePattern)))"
  "st_MeanLifetime (fst (analyzeRepository now now' headCommit commits filePattern))
     = st_MeanLifetime (calculateStats now (snd (analyzeRepository now now' headCommit commits filePattern)))"
  "st_StdDevLifetime (fst (analyzeRepository now now' headCommit commits filePattern))
     = st_StdDevLifetime (calculateStats now (snd (analyzeRepository now now' headCommit commits filePattern)))"
  "st_HalfLife (fst (analyzeRepository now now' headCommit commits filePattern))
     = st_HalfLife (calculateStats now (snd (analyzeRepository now now' headCommit commits filePattern)))"
  "st_NewestCode (fst (analyzeRepository now now' headCommit commits filePattern))
     = st_NewestCode (calculateStats now (snd (analyzeRepository now now' headCommit commits filePattern)))"
  by (simp_all add: analyzeRepository_def Let_def)

lemma exSameTime_fits: "list_all2 commitFits (butlast exSameTime) (tl exSameTime)"
  by (simp add: exSameTime_def exSameHead_def exFileGo_def commitFits_def patchFits_def
      fromText_def toText_def)

lemma exSameTime_histories:
  "snd (analyzeRepository now now' headCommit exSameTime ''*.go'') =
     [(''a.go:1:x'',
       \<lparr>lh_File = ''a.go'', lh_Line = ''x'',
        lh_Changes = [\<lparr>ce_Timestamp = day, ce_Type = Created, ce_NewValue = ''x'', ce_Distance = 0\<rparr>,
                      \<lparr>ce_Timestamp = day, ce_Type = Deleted, ce_NewValue = [], ce_Distance = 0\<rparr>],
        lh_FirstSeen = day, lh_LastSeen = day, lh_DeletedAt = Some day\<rparr>),
      (''a.go:1:z'',
       \<lparr>lh_File = ''a.go'', lh_Line = ''z'',
        lh_Changes = [\<lparr>ce_Timestamp = day, ce_Type = Created, ce_NewValue = ''z'', ce_Distance = 0\<rparr>],
        lh_FirstSeen = day, lh_LastSeen = day, lh_DeletedAt = None\<rparr>)]"
  by (simp add: analyzeRepository_def exSameTime_def exSameHead_def analysis_defs)

lemma exSameTime_lifetimes:
  "map (specLifetime1 (2 * day) \<circ> snd) (snd (analyzeRepository (2 * day) now' headCommit exSameTime ''*.go''))
     = [0, 1]"
  by (simp add: exSameTime_histories specLifetime1_def hours_def sub_def minDuration_def
      maxDuration_def day_def)

text \<open>
  Claim C5 reads: every record with a non-positive lifetime is left out of the sample
  from which the mean, the median, the standard deviation and the half-life are
  computed, and every record counts in the total of tracked lines. The first program,
  the one that computes a mean and a standard deviation, keeps a lifetime of zero and
  reports another total. For a log whose two newest commits carry the same time, the
  record of the line \<open>x\<close>, created and deleted at that time, has the lifetime 0 and
  is in the sample: the sample has 2 lifetimes, the least is 0 and the mean is 1/2.
  The map holds 2 records and the total reported is 1, the number of lines of the file
  at HEAD.
\<close>

theorem zero_lifetime_in_sample_counterexample:
  "map (specLifetime1 (2 * day) \<circ> snd)
     (snd (analyzeRepository (2 * day) (2 * day) (Some exSameHead) exSameTime ''*.go'')) = [0, 1]
   \<and> st_LinesWithChanges (fst (analyzeRepository (2 * day) (2 * day) (Some exSameHead) exSameTime ''*.go'')) = 2
   \<and> st_NewestCode (fst (analyzeRepository (2 * day) (2 * day) (Some exSameHead) exSameTime ''*.go'')) = 0
   \<and> st_MeanLifetime (fst (analyzeRepository (2 * day) (2 * day) (Some exSameHead) exSameTime ''*.go'')) = 1 / 2
   \<and> length (snd (analyzeRepository (2 * day) (2 * day) (Some exSameHead) exSameTime ''*.go'')) = 2
   \<and> st_TotalLinesTracked (fst (analyzeRepository (2 * day) (2 * day) (Some exSameHead) exSameTime ''*.go'')) = 1"
  unfolding analyzeRepository_stats exSameTime_lifetimes
  by (simp add: exSameTime_histories calculateStats_def collectLifetime_def
      hours_def sub_def minDuration_def maxDuration_def day_def
      currentLines_def exSameHead_def countLines_def hasPatternSuffix_def trimPrefixStar_def
      suffix_to_prefix exFileGo_def Let_def)

text \<open>
  Claim C5, amended. The lifetime of a record runs from its creation to its deletion,
  or to the present when it has not been deleted, in days. In the first program the
  sample is made of the lifetimes that are not negative, a lifetime of zero included:
  when the sample is empty the statistics are all zero, and otherwise the count of
  lines with changes is the size of the sample, the mean, the standard deviation, the
  median and the half-life are those of the sample, and \<open>calculateStats\<close> counts every
  record of the map in the total of tracked lines; the analysis then reports, in place
  of that total, the number of lines of the matching files at HEAD. In the second
  program the sample is made of the positive lifetimes only, the median age, the
  half-life and the survival curve are computed from it, and the total counts every
  record of the map.
\<close>

theorem lifetime_sample_and_total:
  "(let sample = sort (filter (\<lambda>x. 0 \<le> x) (map (specLifetime1 now \<circ> snd) histories));
        mean = sum_list sample / real (length sample);
        stats = calculateStats now histories
    in (sample = [] \<longrightarrow> stats = zeroStats)
       \<and> (sample \<noteq> [] \<longrightarrow>
            st_LinesWithChanges stats = length sample
            \<and> st_MeanLifetime stats = mean
            \<and> st_StdDevLifetime stats =
                sqrt (sum_list (map (\<lambda>x. (x - mean) * (x - mean)) sample) / real (length sample))
            \<and> st_MedianLifetime stats = specMedian sample
            \<and> st_HalfLife stats = specMedian sample * ln 2
            \<and> st_NewestCode stats = sample ! 0
            \<and> st_TotalLinesTracked stats = length histories))
   \<and> (let result = analyzeRepository now now' headCommit commits filePattern;
           stats = calculateStats now (snd result)
       in st_TotalLinesTracked (fst result) = currentLines filePattern headCommit
          \<and> st_LinesWithChanges (fst result) = st_LinesWithChanges stats
          \<and> st_MeanLifetime (fst result) = st_MeanLifetime stats
          \<and> st_StdDevLifetime (fst result) = st_StdDevLifetime stats
          \<and> st_HalfLife (fst result) = st_HalfLife stats
          \<and> st_NewestCode (fst result) = st_NewestCode stats)
   \<and> lifetimes (tallyLines now lines) = filter (\<lambda>x. 0 < x) (map (specLifetime now \<circ> snd) lines)
   \<and> totalLines2 (tallyLines now lines) = length lines
   \<and> (\<forall>st. statistics2 now commits2 lines = Inr st \<longrightarrow>
         vs_TotalLines st = length lines
         \<and> (let sample = sort (filter (\<lambda>x. 0 < x) (map (specLifetime now \<circ> snd) lines))
            in vs_MedianAge st = sample ! (length sample div 2)
               \<and> vs_HalfLife st = halfLifeOf sample
               \<and> vs_SurvivalRate st = survivalRateOf sample))"
proof -
  define sample where "sample = sort (filter (\<lambda>x. 0 \<le> x) (map (specLifetime1 now \<circ> snd) histories))"
  define mean where "mean = sum_list sample / real (length sample)"
  have e: "sample = [] \<longrightarrow> calculateStats now histories = zeroStats"
  proof
    assume "sample = []"
    then have "filter (\<lambda>x. 0 \<le> x) (map (specLifetime1 now \<circ> snd) histories) = []"
      unfolding sample_def by (metis length_sort length_0_conv)
    then show "calculateStats now histories = zeroStats" by (rule calculateStats_empty)
  qed
  have n: "sample \<noteq> [] \<longrightarrow>
            st_LinesWithChanges (calculateStats now histories) = length sample
            \<and> st_MeanLifetime (calculateStats now histories) = mean
            \<and> st_StdDevLifetime (calculateStats now histories) =
                sqrt (sum_list (map (\<lambda>x. (x - mean) * (x - mean)) sample) / real (length sample))
            \<and> st_MedianLifetime (calculateStats now histories) = specMedian sample
            \<and> st_HalfLife (calculateStats now histories) = specMedian sample * ln 2
            \<and> st_NewestCode (calculateStats now histories) = sample ! 0
            \<and> st_TotalLinesTracked (calculateStats now histories) = length histories"
    using calculateStats_sample [OF sample_def _ mean_def] by simp
  have 1: "(let sample = sort (filter (\<lambda>x. 0 \<le> x) (map (specLifetime1 now \<circ> snd) histories));
        mean = sum_list sample / real (length sample);
        stats = calculateStats now histories
    in (sample = [] \<longrightarrow> stats = zeroStats)
       \<and> (sample \<noteq> [] \<longrightarrow>
            st_LinesWithChanges stats = length sample
            \<and> st_MeanLifetime stats = mean
            \<and> st_StdDevLifetime stats =
                sqrt (sum_list (map (\<lambda>x. (x - mean) * (x - mean)) sample) / real (length sample))
            \<and> st_MedianLifetime stats = specMedian sample
            \<and> st_HalfLife stats = specMedian sample * ln 2
            \<and> st_NewestCode stats = sample ! 0
            \<and> st_TotalLinesTracked stats = length histories))"
    using e n unfolding Let_def sample_def mean_def by (rule conjI)
  have 2: "(let result = analyzeRepository now now' headCommit commits filePattern;
           stats = calculateStats now (snd result)
       in st_TotalLinesTracked (fst result) = currentLines filePattern headCommit
          \<and> st_LinesWithChanges (fst result) = st_LinesWithChanges stats
          \<and> st_MeanLifetime (fst result) = st_MeanLifetime stats
          \<and> st_StdDevLifetime (fst result) = st_StdDevLifetime stats
          \<and> st_HalfLife (fst result) = st_HalfLife stats
          \<and> st_NewestCode (fst result) = st_NewestCode stats)"
    unfolding Let_def using analyzeRepository_stats [of now now' headCommit commits filePattern]
    by (intro conjI)
  have 3: "lifetimes (tallyLines now lines) = filter (\<lambda>x. 0 < x) (map (specLifetime now \<circ> snd) lines)
   \<and> totalLines2 (tallyLines now lines) = length lines
   \<and> (\<forall>st. statistics2 now commits2 lines = Inr st \<longrightarrow>
         vs_TotalLines st = length lines
         \<and> (let sample = sort (filter (\<lambda>x. 0 < x) (map (specLifetime now \<circ> snd) lines))
            in vs_MedianAge st = sample ! (length sample div 2)
               \<and> vs_HalfLife st = halfLifeOf sample
               \<and> vs_SurvivalRate st = survivalRateOf sample))"
    using statistics2_Inr [of now commits2 lines]
    by (simp add: tallyLines_lifetimes tallyLines_totalLines Let_def)
  show ?thesis by (rule conjI [OF 1 conjI [OF 2 3]])
qed

theorem lifetime_sample_and_total_witness:
  "st_LinesWithChanges (fst (analyzeRepository (100 * day) 0 (Some exSameHead) exSameTime ''*.go'')) = 2
   \<and> st_MeanLifetime (fst (analyzeRepository (100 * day) 0 (Some exSameHead) exSameTime ''*.go'')) = 99 / 2
   \<and> st_TotalLinesTracked (fst (analyzeRepository (100 * day) 0 (Some exSameHead) exSameTime ''*.go'')) = 1
   \<and> (\<exists>st. statistics2 (100 * day) [exCommit] exLines = Inr st \<and> vs_TotalLines st = 3
             \<and> vs_MedianAge st = 100)"
proof -
  let ?r = "analyzeRepository (100 * day) 0 (Some exSameHead) exSameTime ''*.go''"
  have sp1: "sort (filter (\<lambda>x. 0 \<le> x) (map (specLifetime1 (100 * day) \<circ> snd) (snd ?r))) = [0, 99]"
    by (simp add: exSameTime_histories specLifetime1_def hours_def sub_def minDuration_def
        maxDuration_def day_def)
  have cl: "currentLines ''*.go'' (Some exSameHead) = 1"
    by (simp add: currentLines_def exSameHead_def countLines_def hasPatternSuffix_def
        trimPrefixStar_def suffix_to_prefix)
  have sp2: "map (specLifetime (100 * day) \<circ> snd) exLines = [100, 1, 0]"
    by (simp add: exLines_def specLifetime_def hours_def sub_def minDuration_def maxDuration_def
        day_def Let_def)
  obtain st where st: "statistics2 (100 * day) [exCommit] exLines = Inr st"
    by (simp add: statistics2_def exLines_sample Let_def tallyLines_def exLines_def tallyLine_def
        emptyTally_def hours_def sub_def minDuration_def maxDuration_def day_def)
  note t = lifetime_sample_and_total [of "100 * day" "snd ?r" 0 "Some exSameHead" exSameTime
      "''*.go''" exLines "[exCommit]"]
  have a: "st_LinesWithChanges (calculateStats (100 * day) (snd ?r)) = 2
           \<and> st_MeanLifetime (calculateStats (100 * day) (snd ?r)) = 99 / 2"
    using t unfolding Let_def sp1 by simp
  have b: "st_TotalLinesTracked (fst ?r) = 1
           \<and> st_LinesWithChanges (fst ?r) = st_LinesWithChanges (calculateStats (100 * day) (snd ?r))
           \<and> st_MeanLifetime (fst ?r) = st_MeanLifetime (calculateStats (100 * day) (snd ?r))"
    using t unfolding Let_def cl by simp
  have c: "vs_TotalLines st = 3 \<and> vs_MedianAge st = 100"
    using t st unfolding Let_def sp2 by (simp add: exLines_def)
  show ?thesis using a b c st by (intro conjI exI [of _ st]) simp_all
qed

end
